theory Spec2Isabelle
  imports Main
begin

section \<open>Values, store state and patches\<close>

text \<open>
  The adapter forwards procedure inputs, request options, results and errors without
  looking into them. They are JavaScript values; \<open>Undefined\<close> and \<open>Null\<close> are
  values of their own, and \<open>ErrorObj m\<close> is \<^verbatim>\<open>new Error(m)\<close>.
\<close>

datatype jsval =
    Undefined
  | Null
  | Bool bool
  | Num int
  | Str string
  | ErrorObj string
  | Arr "jsval list"
  | Obj "(string \<times> jsval) list"

text \<open>
  The state objects of the three store creators of \<^verbatim>\<open>trpc.ts\<close>. All of them have
  \<^verbatim>\<open>enabled\<close>, \<^verbatim>\<open>input\<close>, \<^verbatim>\<open>data\<close> and \<^verbatim>\<open>error\<close>; the query and the mutation
  store add \<^verbatim>\<open>loading\<close>, the query store also \<^verbatim>\<open>keepPreviousData\<close>, and the
  subscription store adds \<^verbatim>\<open>status\<close>. The status is a string at run time: the
  four labels of the declared type are not enforced by the code.
\<close>

record base_state =
  enabled :: bool
  input :: jsval
  data :: jsval
  error :: jsval

record mutation_state = base_state +
  loading :: bool

record query_state = mutation_state +
  keepPreviousData :: bool

record subscription_state = base_state +
  status :: string

text \<open>
  An object literal handed to \<^verbatim>\<open>set\<close> is a list of assignments to fields, in the order
  in which the literal spells them.
\<close>

datatype field =
    Enabled bool
  | Input jsval
  | Loading bool
  | Data jsval
  | Error jsval
  | Status string

type_synonym patch = "field list"

text \<open>
  What the stores do besides changing their state, in the order in which it happens:
  calls of \<^verbatim>\<open>set\<close>, calls of the untyped client (tagged with the number of the
  operation that issued them), calls of the \<^verbatim>\<open>unsubscribe\<close> handle of a subscription,
  calls of \<^verbatim>\<open>refetch\<close> on another store, and calls of the caller's optional
  callbacks.
\<close>

datatype effect =
    Set patch
  | ClientQuery nat string jsval jsval
  | ClientMutation nat string jsval jsval
  | ClientSubscription nat string jsval jsval
  | Unsubscribe nat
  | Refetch nat
  | CallOnStarted nat
  | CallOnData nat jsval
  | CallOnError nat jsval

text \<open>
  A store creator is a closure over \<^verbatim>\<open>path\<close> and the variable \<^verbatim>\<open>stop\<close>, run against
  the container's \<^verbatim>\<open>set\<close> and \<^verbatim>\<open>get\<close>. The world of one store instance holds the
  container's state (what \<^verbatim>\<open>get()\<close> returns), the closure variables, the number of
  operations issued so far (the next operation gets this number) and the trace of effects.
  \<open>stop = None\<close> is the initial \<^verbatim>\<open>() => {}\<close>; \<open>stop = Some c\<close> is the closure that
  operation \<open>c\<close> installed.
\<close>

record 's store =
  state :: 's
  path :: string
  stop :: "nat option"
  issued :: nat
  trace :: "effect list"

text \<open>
  A promise returned by \<^verbatim>\<open>query\<close>, \<^verbatim>\<open>refetch\<close> or \<^verbatim>\<open>mutate\<close>: rejected or resolved
  at once, or waiting for the remote call of operation \<open>c\<close>. The client settles a remote
  call with an \<open>outcome\<close>.
\<close>

datatype promise = Awaiting nat | Resolved jsval | Rejected jsval

datatype outcome = Resolve jsval | Reject jsval

text \<open>
  Query and mutation stores: every call has a local flag \<^verbatim>\<open>stopped\<close>, which the
  closure it stores in \<^verbatim>\<open>stop\<close> sets. \<open>pending\<close> lists the remote calls that have not
  settled, \<open>settled\<close> what the promise returned by each call became.
\<close>

record 's op_store = "'s store" +
  stopped :: "nat \<Rightarrow> bool"
  pending :: "nat list"
  settled :: "nat \<Rightarrow> promise option"

type_synonym query_store = "query_state op_store"

text \<open>
  A store handed out by \<^verbatim>\<open>refetchStores\<close>: its identity, a number, and what its
  \<^verbatim>\<open>refetch\<close> does when it is called: it returns a promise (\<open>None\<close>), which nothing
  awaits, or it throws a value at once (\<open>Some v\<close>). \<^verbatim>\<open>refetchStores\<close> itself is
  optional; called, it throws (\<open>Inl\<close>) or returns nothing or an array of stores. It is
  taken to do the same at every call.
\<close>

datatype store_api = StoreApi nat "jsval option"

type_synonym refetch_stores = "(unit \<Rightarrow> jsval + store_api list option) option"

record mutation_store = "mutation_state op_store" +
  refetchStores :: refetch_stores

section \<open>The state container\<close>

text \<open>
  Modelled from the spec: the state container is not part of the repository. Its
  \<^verbatim>\<open>set\<close> applies a partial-state patch to the current state, and \<^verbatim>\<open>get\<close> reads
  the current state (section 6 of the specification). A field that a store does not
  have is never patched by that store; the clauses for it leave the state alone.
\<close>

fun assign_base :: "field \<Rightarrow> 'z base_state_scheme \<Rightarrow> 'z base_state_scheme" where
  "assign_base (Enabled b) s = s\<lparr>enabled := b\<rparr>"
| "assign_base (Input v) s = s\<lparr>input := v\<rparr>"
| "assign_base (Data v) s = s\<lparr>data := v\<rparr>"
| "assign_base (Error v) s = s\<lparr>error := v\<rparr>"
| "assign_base (Loading b) s = s"
| "assign_base (Status l) s = s"

fun assign_op :: "field \<Rightarrow> 'z mutation_state_scheme \<Rightarrow> 'z mutation_state_scheme" where
  "assign_op (Loading b) s = s\<lparr>loading := b\<rparr>"
| "assign_op f s = assign_base f s"

fun assign_sub :: "field \<Rightarrow> subscription_state \<Rightarrow> subscription_state" where
  "assign_sub (Status l) s = s\<lparr>status := l\<rparr>"
| "assign_sub f s = assign_base f s"

definition set_op ::
  "patch \<Rightarrow> ('z mutation_state_scheme, 'w) op_store_scheme
    \<Rightarrow> ('z mutation_state_scheme, 'w) op_store_scheme" where
  "set_op p w = w\<lparr>state := fold assign_op p (state w), trace := trace w @ [Set p]\<rparr>"

section \<open>Query and mutation stores\<close>

text \<open>
  \<^verbatim>\<open>initialState\<close> of the query and of the mutation store, as the patch that
  \<^verbatim>\<open>{ ...initialState }\<close> is.
\<close>

definition initialState :: patch where
  "initialState = [Input Undefined, Loading False, Data Undefined, Error Undefined]"

text \<open>
  Calling \<^verbatim>\<open>stop()\<close>: the initial closure does nothing, the closure of operation
  \<open>c\<close> sets that operation's \<^verbatim>\<open>stopped\<close>.
\<close>

definition call_stop :: "('s, 'w) op_store_scheme \<Rightarrow> ('s, 'w) op_store_scheme" where
  "call_stop w = (case stop w of None \<Rightarrow> w | Some c \<Rightarrow> w\<lparr>stopped := (stopped w)(c := True)\<rparr>)"

text \<open>
  \<^verbatim>\<open>enable\<close>, \<^verbatim>\<open>disable\<close>, \<^verbatim>\<open>toggle\<close> and \<^verbatim>\<open>reset\<close> are the same text in
  \<^verbatim>\<open>queryStoreCreatorFactory\<close> and in \<^verbatim>\<open>mutationStoreCreatorFactory\<close>; one definition
  over the fields the two stores share embeds both.
\<close>

definition enable ::
  "('z mutation_state_scheme, 'w) op_store_scheme
    \<Rightarrow> ('z mutation_state_scheme, 'w) op_store_scheme" where
  "enable w = set_op [Enabled True] w"

definition disable ::
  "('z mutation_state_scheme, 'w) op_store_scheme
    \<Rightarrow> ('z mutation_state_scheme, 'w) op_store_scheme" where
  "disable w = set_op (Enabled False # initialState) (call_stop w)"

definition toggle ::
  "('z mutation_state_scheme, 'w) op_store_scheme
    \<Rightarrow> ('z mutation_state_scheme, 'w) op_store_scheme" where
  "toggle w = (if enabled (state w) then disable w else enable w)"

definition reset ::
  "('z mutation_state_scheme, 'w) op_store_scheme
    \<Rightarrow> ('z mutation_state_scheme, 'w) op_store_scheme" where
  "reset w = set_op initialState (call_stop w)"

subsection \<open>The query store\<close>

text \<open>
  \<^verbatim>\<open>QueryStoreOptions\<close>: both fields are optional, and the destructuring in
  \<^verbatim>\<open>queryStoreCreatorFactory\<close> defaults each of them to \<^verbatim>\<open>true\<close>.
\<close>

record QueryStoreOptions =
  opt_enabled :: "bool option"
  opt_keepPreviousData :: "bool option"

definition queryStoreCreatorFactory :: "string \<Rightarrow> QueryStoreOptions \<Rightarrow> query_store" where
  "queryStoreCreatorFactory p opts =
     \<lparr> state = \<lparr> enabled = (case opt_enabled opts of None \<Rightarrow> True | Some b \<Rightarrow> b),
                 input = Undefined, data = Undefined, error = Undefined,
                 loading = False,
                 keepPreviousData =
                   (case opt_keepPreviousData opts of None \<Rightarrow> True | Some b \<Rightarrow> b) \<rparr>,
       path = p, stop = None, issued = 0, trace = [],
       stopped = (\<lambda>c. False), pending = [], settled = (\<lambda>c. None) \<rparr>"

text \<open>
  \<^verbatim>\<open>query(input, opts)\<close> up to its \<^verbatim>\<open>await\<close>. An \<^verbatim>\<open>async\<close> function that throws
  returns a rejected promise. Otherwise the call gets the next number \<open>c\<close>, its
  \<^verbatim>\<open>stopped\<close> starts at \<^verbatim>\<open>false\<close>, and the promise waits for the remote call.
\<close>

definition query :: "jsval \<Rightarrow> jsval \<Rightarrow> query_store \<Rightarrow> promise \<times> query_store" where
  "query inp opts w =
     (if \<not> enabled (state w) then (Rejected (ErrorObj ''Query is disabled''), w)
      else
        let w1 = call_stop w;
            c = issued w1;
            w2 = w1\<lparr>stopped := (stopped w1)(c := False), stop := Some c, issued := Suc c\<rparr>;
            w3 = set_op [Input inp, Loading True,
                         Data (if keepPreviousData (state w2) then data (state w2)
                               else Undefined),
                         Error Undefined] w2;
            w4 = w3\<lparr>trace := trace w3 @ [ClientQuery c (path w3) inp opts],
                    pending := c # pending w3\<rparr>
        in (Awaiting c, w4))"

text \<open>\<^verbatim>\<open>refetch(opts)\<close> calls \<^verbatim>\<open>query\<close> with the stored input.\<close>

definition refetch :: "jsval \<Rightarrow> query_store \<Rightarrow> promise \<times> query_store" where
  "refetch opts w = query (input (state w)) opts w"

text \<open>
  The rest of \<^verbatim>\<open>query\<close>, run when the client settles the remote call of operation
  \<open>c\<close>. A remote call settles once; settling a call that is not pending does nothing.
\<close>

definition query_settle :: "nat \<Rightarrow> outcome \<Rightarrow> query_store \<Rightarrow> query_store" where
  "query_settle c out w =
     (if c \<notin> set (pending w) then w
      else
        let w1 = w\<lparr>pending := removeAll c (pending w)\<rparr>
        in (case out of
              Resolve result \<Rightarrow>
                (let w2 = (if \<not> stopped w1 c then set_op [Loading False, Data result] w1
                           else w1)
                 in w2\<lparr>settled := (settled w2)(c \<mapsto> Resolved result)\<rparr>)
            | Reject err \<Rightarrow>
                (let w2 = (if \<not> stopped w1 c then set_op [Loading False, Error err] w1
                           else w1)
                 in w2\<lparr>settled := (settled w2)(c \<mapsto> Rejected err)\<rparr>)))"

text \<open>
  What can happen to a query store: a call of one of its methods, or the client settling
  a remote call.
\<close>

datatype query_event =
    QEnable
  | QDisable
  | QToggle
  | QReset
  | QQuery jsval jsval
  | QRefetch jsval
  | QSettle nat outcome

fun query_step :: "query_event \<Rightarrow> query_store \<Rightarrow> query_store" where
  "query_step QEnable w = enable w"
| "query_step QDisable w = disable w"
| "query_step QToggle w = toggle w"
| "query_step QReset w = reset w"
| "query_step (QQuery inp opts) w = snd (query inp opts w)"
| "query_step (QRefetch opts) w = snd (refetch opts w)"
| "query_step (QSettle c out) w = query_settle c out w"

definition query_run :: "query_event list \<Rightarrow> query_store \<Rightarrow> query_store" where
  "query_run es w = fold query_step es w"

subsection \<open>The mutation store\<close>

text \<open>\<^verbatim>\<open>MutationStoreOptions\<close>: both fields are optional.\<close>

record MutationStoreOptions =
  mopt_enabled :: "bool option"
  mopt_refetchStores :: refetch_stores

text \<open>The functions \<^verbatim>\<open>() => x\<close> and \<^verbatim>\<open>() => { throw v }\<close>.\<close>

definition returning :: "'a \<Rightarrow> unit \<Rightarrow> jsval + 'a" where
  "returning x u = Inr x"

definition throwing :: "jsval \<Rightarrow> unit \<Rightarrow> jsval + 'a" where
  "throwing v u = Inl v"

definition mutationStoreCreatorFactory ::
  "string \<Rightarrow> MutationStoreOptions \<Rightarrow> mutation_store" where
  "mutationStoreCreatorFactory p opts =
     \<lparr> state = \<lparr> enabled = (case mopt_enabled opts of None \<Rightarrow> True | Some b \<Rightarrow> b),
                 input = Undefined, data = Undefined, error = Undefined,
                 loading = False \<rparr>,
       path = p, stop = None, issued = 0, trace = [],
       stopped = (\<lambda>c. False), pending = [], settled = (\<lambda>c. None),
       refetchStores = mopt_refetchStores opts \<rparr>"

text \<open>\<^verbatim>\<open>mutate(input, opts)\<close> up to its \<^verbatim>\<open>await\<close>.\<close>

definition mutate :: "jsval \<Rightarrow> jsval \<Rightarrow> mutation_store \<Rightarrow> promise \<times> mutation_store" where
  "mutate inp opts w =
     (if \<not> enabled (state w) then (Rejected (ErrorObj ''Mutation is disabled''), w)
      else
        let w1 = call_stop w;
            c = issued w1;
            w2 = w1\<lparr>stopped := (stopped w1)(c := False), stop := Some c, issued := Suc c\<rparr>;
            w3 = set_op [Input inp, Loading True, Data Undefined, Error Undefined] w2;
            w4 = w3\<lparr>trace := trace w3 @ [ClientMutation c (path w3) inp opts],
                    pending := c # pending w3\<rparr>
        in (Awaiting c, w4))"

text \<open>
  \<^verbatim>\<open>forEach(store => store.getState().refetch())\<close>: the calls of \<^verbatim>\<open>refetch\<close>, in
  order, up to and including the first one that throws, and the value thrown, if any.
\<close>

fun store_id :: "store_api \<Rightarrow> nat" where
  "store_id (StoreApi h t) = h"

fun refetch_throws :: "store_api \<Rightarrow> jsval option" where
  "refetch_throws (StoreApi h t) = t"

fun refetch_each :: "store_api list \<Rightarrow> effect list \<times> jsval option" where
  "refetch_each [] = ([], None)"
| "refetch_each (StoreApi h None # stores) =
     (case refetch_each stores of (es, t) \<Rightarrow> (Refetch h # es, t))"
| "refetch_each (StoreApi h (Some v) # stores) = ([Refetch h], Some v)"

text \<open>\<^verbatim>\<open>refetchStores?.()?.forEach(store => store.getState().refetch())\<close>\<close>

definition refetch_all :: "refetch_stores \<Rightarrow> effect list \<times> jsval option" where
  "refetch_all r =
     (case r of None \<Rightarrow> ([], None)
      | Some f \<Rightarrow>
          (case f () of
             Inl v \<Rightarrow> ([], Some v)
           | Inr None \<Rightarrow> ([], None)
           | Inr (Some stores) \<Rightarrow> refetch_each stores))"

text \<open>
  The \<^verbatim>\<open>catch\<close> block of \<^verbatim>\<open>mutate\<close> for call \<open>c\<close>: it sets the error unless the call
  is stopped, and the promise that \<^verbatim>\<open>mutate\<close> returned rejects.
\<close>

definition mutate_catch :: "nat \<Rightarrow> jsval \<Rightarrow> mutation_store \<Rightarrow> mutation_store" where
  "mutate_catch c err w =
     (let w2 = (if \<not> stopped w c then set_op [Loading False, Error err] w else w)
      in w2\<lparr>settled := (settled w2)(c \<mapsto> Rejected err)\<rparr>)"

text \<open>
  The rest of \<^verbatim>\<open>mutate\<close>, run when the client settles the remote call. The refetches
  are inside the \<^verbatim>\<open>try\<close>: when \<^verbatim>\<open>refetchStores()\<close> or a \<^verbatim>\<open>refetch\<close> throws, the
  \<^verbatim>\<open>catch\<close> block runs with the value thrown.
\<close>

definition mutation_settle :: "nat \<Rightarrow> outcome \<Rightarrow> mutation_store \<Rightarrow> mutation_store" where
  "mutation_settle c out w =
     (if c \<notin> set (pending w) then w
      else
        let w1 = w\<lparr>pending := removeAll c (pending w)\<rparr>
        in (case out of
              Resolve result \<Rightarrow>
                (if \<not> stopped w1 c
                 then (let w' = set_op [Loading False, Data result] w1
                       in (case refetch_all (refetchStores w') of
                             (es, thrown) \<Rightarrow>
                               (let w2 = w'\<lparr>trace := trace w' @ es\<rparr>
                                in (case thrown of
                                      None \<Rightarrow>
                                        w2\<lparr>settled := (settled w2)(c \<mapsto> Resolved result)\<rparr>
                                    | Some v \<Rightarrow> mutate_catch c v w2))))
                 else w1\<lparr>settled := (settled w1)(c \<mapsto> Resolved result)\<rparr>)
            | Reject err \<Rightarrow> mutate_catch c err w1))"

datatype mutation_event =
    MEnable
  | MDisable
  | MToggle
  | MReset
  | MMutate jsval jsval
  | MSettle nat outcome

fun mutation_step :: "mutation_event \<Rightarrow> mutation_store \<Rightarrow> mutation_store" where
  "mutation_step MEnable w = enable w"
| "mutation_step MDisable w = disable w"
| "mutation_step MToggle w = toggle w"
| "mutation_step MReset w = reset w"
| "mutation_step (MMutate inp opts) w = snd (mutate inp opts w)"
| "mutation_step (MSettle c out) w = mutation_settle c out w"

definition mutation_run :: "mutation_event list \<Rightarrow> mutation_store \<Rightarrow> mutation_store" where
  "mutation_run es w = fold mutation_step es w"

text \<open>The calls of \<^verbatim>\<open>refetch\<close> in a trace: the stores, in the order of the calls.\<close>

fun refetch_calls :: "effect list \<Rightarrow> nat list" where
  "refetch_calls [] = []"
| "refetch_calls (Refetch h # es) = h # refetch_calls es"
| "refetch_calls (e # es) = refetch_calls es"

text \<open>The calls of \<^verbatim>\<open>set\<close> in a trace.\<close>

fun set_calls :: "effect list \<Rightarrow> patch list" where
  "set_calls [] = []"
| "set_calls (Set p # es) = p # set_calls es"
| "set_calls (e # es) = set_calls es"

section \<open>The subscription store\<close>

text \<open>
  Which of the optional callbacks \<^verbatim>\<open>onStarted\<close>, \<^verbatim>\<open>onData\<close>, \<^verbatim>\<open>onError\<close> the caller of
  \<^verbatim>\<open>subscribe\<close> passed. What a callback does is the caller's; the trace records that
  it is called.
\<close>

record callbacks =
  cb_onStarted :: bool
  cb_onData :: bool
  cb_onError :: bool

text \<open>
  Here \<^verbatim>\<open>stop\<close> is the \<^verbatim>\<open>unsubscribe\<close> of the subscription opened last, and every
  subscription keeps the handlers that \<^verbatim>\<open>subscribe\<close> gave to the client.
\<close>

record subscription_store = "subscription_state store" +
  handlers :: "nat \<Rightarrow> callbacks option"

record SubscriptionStoreOptions =
  sopt_enabled :: "bool option"

definition set_sub :: "patch \<Rightarrow> subscription_store \<Rightarrow> subscription_store" where
  "set_sub p w = w\<lparr>state := fold assign_sub p (state w), trace := trace w @ [Set p]\<rparr>"

definition sub_initialState :: patch where
  "sub_initialState = [Input Undefined, Status ''idle'', Data Undefined, Error Undefined]"

definition subscriptionStoreCreatorFactory ::
  "string \<Rightarrow> SubscriptionStoreOptions \<Rightarrow> subscription_store" where
  "subscriptionStoreCreatorFactory p opts =
     \<lparr> state = \<lparr> enabled = (case sopt_enabled opts of None \<Rightarrow> True | Some b \<Rightarrow> b),
                 input = Undefined, data = Undefined, error = Undefined,
                 status = ''idle'' \<rparr>,
       path = p, stop = None, issued = 0, trace = [],
       handlers = (\<lambda>k. None) \<rparr>"

text \<open>
  Calling \<^verbatim>\<open>stop()\<close>: the initial closure does nothing; otherwise it is the
  transport's \<^verbatim>\<open>unsubscribe\<close> of subscription \<open>k\<close>, which the store only calls.
\<close>

definition sub_call_stop :: "subscription_store \<Rightarrow> subscription_store" where
  "sub_call_stop w =
     (case stop w of None \<Rightarrow> w | Some k \<Rightarrow> w\<lparr>trace := trace w @ [Unsubscribe k]\<rparr>)"

definition sub_enable :: "subscription_store \<Rightarrow> subscription_store" where
  "sub_enable w = set_sub [Enabled True] w"

definition sub_disable :: "subscription_store \<Rightarrow> subscription_store" where
  "sub_disable w = set_sub (Enabled False # sub_initialState) (sub_call_stop w)"

definition sub_toggle :: "subscription_store \<Rightarrow> subscription_store" where
  "sub_toggle w = (if enabled (state w) then sub_disable w else sub_enable w)"

definition sub_reset :: "subscription_store \<Rightarrow> subscription_store" where
  "sub_reset w = set_sub sub_initialState (sub_call_stop w)"

text \<open>
  \<^verbatim>\<open>subscribe(input, { onStarted, onData, onError, ...opts })\<close> is not \<^verbatim>\<open>async\<close>: it
  throws (\<open>Inl\<close>) or returns the new \<^verbatim>\<open>stop\<close>, the \<^verbatim>\<open>unsubscribe\<close> of the
  subscription \<open>k\<close> it opened (\<open>Inr k\<close>).
\<close>

definition subscribe ::
  "jsval \<Rightarrow> callbacks \<Rightarrow> jsval \<Rightarrow> subscription_store \<Rightarrow> (jsval + nat) \<times> subscription_store"
  where
  "subscribe inp cbs opts w =
     (if \<not> enabled (state w) then (Inl (ErrorObj ''Subscription is disabled''), w)
      else
        let w1 = sub_call_stop w;
            w2 = set_sub [Input inp, Status ''connecting'', Data Undefined, Error Undefined] w1;
            k = issued w2;
            w3 = w2\<lparr>trace := trace w2 @ [ClientSubscription k (path w2) inp opts],
                    handlers := (handlers w2)(k \<mapsto> cbs),
                    issued := Suc k,
                    stop := Some k\<rparr>
        in (Inr k, w3))"

text \<open>
  Calling the function that \<^verbatim>\<open>subscribe\<close> returned for subscription \<open>k\<close>. There is no
  such function for a subscription that was never opened.
\<close>

definition cancel :: "nat \<Rightarrow> subscription_store \<Rightarrow> subscription_store" where
  "cancel k w =
     (case handlers w k of None \<Rightarrow> w
      | Some cbs \<Rightarrow> w\<lparr>trace := trace w @ [Unsubscribe k]\<rparr>)"

text \<open>
  The four handlers that \<^verbatim>\<open>subscribe\<close> gives to the client for subscription \<open>k\<close>, run
  when the transport calls them.
\<close>

definition onStarted :: "nat \<Rightarrow> subscription_store \<Rightarrow> subscription_store" where
  "onStarted k w =
     (case handlers w k of None \<Rightarrow> w
      | Some cbs \<Rightarrow>
          let w1 = set_sub [Status ''pending'', Error Undefined] w
          in if cb_onStarted cbs then w1\<lparr>trace := trace w1 @ [CallOnStarted k]\<rparr> else w1)"

definition onData :: "nat \<Rightarrow> jsval \<Rightarrow> subscription_store \<Rightarrow> subscription_store" where
  "onData k d w =
     (case handlers w k of None \<Rightarrow> w
      | Some cbs \<Rightarrow>
          let w1 = set_sub [Status ''pending'', Data d, Error Undefined] w
          in if cb_onData cbs then w1\<lparr>trace := trace w1 @ [CallOnData k d]\<rparr> else w1)"

definition onError :: "nat \<Rightarrow> jsval \<Rightarrow> subscription_store \<Rightarrow> subscription_store" where
  "onError k err w =
     (case handlers w k of None \<Rightarrow> w
      | Some cbs \<Rightarrow>
          let w1 = set_sub [Status ''error'', Error err] w
          in if cb_onError cbs then w1\<lparr>trace := trace w1 @ [CallOnError k err]\<rparr> else w1)"

text \<open>\<^verbatim>\<open>a ?? b\<close>\<close>

definition nullish :: "jsval \<Rightarrow> jsval \<Rightarrow> jsval" where
  "nullish a b = (if a = Null \<or> a = Undefined then b else a)"

text \<open>\<^verbatim>\<open>result\<close> is given by its \<^verbatim>\<open>state\<close> and its \<^verbatim>\<open>error\<close>.\<close>

definition onConnectionStateChange ::
  "nat \<Rightarrow> string \<Rightarrow> jsval \<Rightarrow> subscription_store \<Rightarrow> subscription_store" where
  "onConnectionStateChange k result_state result_error w =
     (case handlers w k of None \<Rightarrow> w
      | Some cbs \<Rightarrow> set_sub [Status result_state, Error (nullish result_error Undefined)] w)"

datatype subscription_event =
    SEnable
  | SDisable
  | SToggle
  | SReset
  | SSubscribe jsval callbacks jsval
  | SCancel nat
  | TStarted nat
  | TData nat jsval
  | TError nat jsval
  | TConnectionStateChange nat string jsval

fun subscription_step :: "subscription_event \<Rightarrow> subscription_store \<Rightarrow> subscription_store"
  where
  "subscription_step SEnable w = sub_enable w"
| "subscription_step SDisable w = sub_disable w"
| "subscription_step SToggle w = sub_toggle w"
| "subscription_step SReset w = sub_reset w"
| "subscription_step (SSubscribe inp cbs opts) w = snd (subscribe inp cbs opts w)"
| "subscription_step (SCancel k) w = cancel k w"
| "subscription_step (TStarted k) w = onStarted k w"
| "subscription_step (TData k d) w = onData k d w"
| "subscription_step (TError k err) w = onError k err w"
| "subscription_step (TConnectionStateChange k l err) w = onConnectionStateChange k l err w"

definition subscription_run ::
  "subscription_event list \<Rightarrow> subscription_store \<Rightarrow> subscription_store" where
  "subscription_run es w = fold subscription_step es w"

section \<open>The procedure tree proxy\<close>

text \<open>
  A property key is a string or a symbol: the \<^verbatim>\<open>prop: string\<close> of the \<^verbatim>\<open>get\<close> trap
  is a type annotation only. A symbol is given by its description.
\<close>

datatype key = StrKey string | SymKey string

text \<open>
  \<^verbatim>\<open>createProxy(path)\<close> of \<^verbatim>\<open>createTRPCZustand\<close> is a proxy that knows only its path.
  Its \<^verbatim>\<open>get\<close> trap returns the proxy of the longer path.
\<close>

datatype proxy = Proxy "key list"

fun proxy_get :: "proxy \<Rightarrow> key \<Rightarrow> proxy" where
  "proxy_get (Proxy segs) prop = Proxy (segs @ [prop])"

text \<open>
  \<^verbatim>\<open>join\<close> of an array of property keys turns every element into a string, which
  throws a \<^verbatim>\<open>TypeError\<close> for a symbol (\<open>None\<close>).
\<close>

fun key_to_string :: "key \<Rightarrow> string option" where
  "key_to_string (StrKey s) = Some s"
| "key_to_string (SymKey d) = None"

fun join :: "string \<Rightarrow> key list \<Rightarrow> string option" where
  "join sep [] = Some []"
| "join sep [k] = key_to_string k"
| "join sep (k # k' # ks) =
     (case key_to_string k of None \<Rightarrow> None
      | Some x \<Rightarrow> (case join sep (k' # ks) of None \<Rightarrow> None
                   | Some r \<Rightarrow> Some (x @ sep @ r)))"

fun is_symbol :: "key \<Rightarrow> bool" where
  "is_symbol (StrKey s) = False"
| "is_symbol (SymKey d) = True"

text \<open>What a call of the proxy does: it throws, returns \<^verbatim>\<open>undefined\<close>, or returns a
  store creator.\<close>

datatype 'a applied =
    ThrowsTypeError
  | ReturnsUndefined
  | QueryStoreCreator string 'a
  | MutationStoreCreator string 'a
  | SubscriptionStoreCreator string 'a

text \<open>
  The \<^verbatim>\<open>apply\<close> trap. \<open>op\<close> is \<^verbatim>\<open>path[path.length - 1]\<close>, \<^verbatim>\<open>undefined\<close> (\<open>None\<close>) for
  the empty path; \<open>butlast\<close> is \<^verbatim>\<open>slice(0, -1)\<close>, and the \<^verbatim>\<open>join\<close> runs before the
  \<^verbatim>\<open>switch\<close>. The \<^verbatim>\<open>switch\<close> has no default: it returns \<^verbatim>\<open>undefined\<close>. The store
  options, \<^verbatim>\<open>{}\<close> when the call gives none, are handed on as they are; an options record
  whose fields are all \<open>None\<close> is \<^verbatim>\<open>{}\<close>.
\<close>

fun proxy_apply :: "proxy \<Rightarrow> 'a \<Rightarrow> 'a applied" where
  "proxy_apply (Proxy segs) storeOpts =
     (let op = (if segs = [] then None else Some (last segs))
      in (case join ''.'' (butlast segs) of
            None \<Rightarrow> ThrowsTypeError
          | Some opPath \<Rightarrow>
              if op = Some (StrKey ''queryStore'') then QueryStoreCreator opPath storeOpts
              else if op = Some (StrKey ''mutationStore'')
                then MutationStoreCreator opPath storeOpts
              else if op = Some (StrKey ''subscriptionStore'')
                then SubscriptionStoreCreator opPath storeOpts
              else ReturnsUndefined))"

definition createTRPCZustand :: proxy where
  "createTRPCZustand = Proxy []"

text \<open>A chain of property accesses \<^verbatim>\<open>p.a.b.c\<close>, one \<^verbatim>\<open>get\<close> trap after the other.\<close>

definition traverse :: "key list \<Rightarrow> proxy \<Rightarrow> proxy" where
  "traverse props p = fold (\<lambda>prop q. proxy_get q prop) props p"

section \<open>The live-query registry\<close>

text \<open>
  Modelled from the spec: the live-query registry (package \<^verbatim>\<open>trpc-live\<close>) is part of
  the repository, but its code is not among the sources; only its README is. Every
  definition of this section follows section 4.2 of the specification. The registry maps
  a key to the set of registrations under it; a registration is known by its identity, a
  number, and its re-run callback is the caller's: the registry records that it is
  invoked.
\<close>

datatype keys = Key string | Keys "string list"

text \<open>
  Modelled from the spec: keys, one string or a list of strings, are normalised to an
  ordered set of distinct strings.
\<close>

fun normalize_keys :: "keys \<Rightarrow> string list" where
  "normalize_keys (Key k) = [k]"
| "normalize_keys (Keys ks) = remdups ks"

text \<open>
  Modelled from the spec: the registry is the mapping from a key to the registrations
  under it, the number of registrations made so far (the identity of the next one), and
  the re-run callbacks invoked so far, in order.
\<close>

record registry =
  registrations :: "string \<Rightarrow> nat list"
  registered :: nat
  reruns :: "nat list"

definition empty_registry :: registry where
  "empty_registry = \<lparr> registrations = (\<lambda>k. []), registered = 0, reruns = [] \<rparr>"

text \<open>
  Modelled from the spec: \<^verbatim>\<open>register(keys, rerun)\<close> inserts the new registration under
  every key and returns the handle that removes it from every key it was added to.
\<close>

definition register :: "keys \<Rightarrow> registry \<Rightarrow> (nat \<times> string list) \<times> registry" where
  "register ks g =
     (let r = registered g;
          nks = normalize_keys ks
      in ((r, nks),
          g\<lparr>registrations :=
               (\<lambda>k. if k \<in> set nks then List.insert r (registrations g k)
                    else registrations g k),
            registered := Suc r\<rparr>))"

text \<open>Modelled from the spec: calling the handle that \<^verbatim>\<open>register\<close> returned.\<close>

definition deregister :: "nat \<times> string list \<Rightarrow> registry \<Rightarrow> registry" where
  "deregister h g =
     g\<lparr>registrations :=
         (\<lambda>k. if k \<in> set (snd h) then removeAll (fst h) (registrations g k)
              else registrations g k)\<rparr>"

text \<open>
  Modelled from the spec: the distinct registrations found under the union of the keys.
\<close>

definition matching :: "keys \<Rightarrow> registry \<Rightarrow> nat list" where
  "matching ks g = remdups (concat (map (registrations g) (normalize_keys ks)))"

text \<open>
  Modelled from the spec: \<^verbatim>\<open>invalidate(keys)\<close> invokes the re-run callback of every
  distinct registration found, and \<^verbatim>\<open>count(keys)\<close> counts them.
\<close>

definition invalidate :: "keys \<Rightarrow> registry \<Rightarrow> registry" where
  "invalidate ks g = g\<lparr>reruns := reruns g @ matching ks g\<rparr>"

definition count :: "keys \<Rightarrow> registry \<Rightarrow> nat" where
  "count ks g = length (matching ks g)"

section \<open>Superseded calls\<close>

text \<open>
  Call \<open>c\<close> is superseded when it was issued and its own \<^verbatim>\<open>stopped\<close> is set. Before
  that, a call that was issued is the one \<^verbatim>\<open>stop\<close> refers to, in an enabled store.
\<close>

definition superseded :: "nat \<Rightarrow> ('s, 'w) op_store_scheme \<Rightarrow> bool" where
  "superseded c w = (c < issued w \<and> stopped w c)"

definition latest_or_superseded ::
  "nat \<Rightarrow> ('z mutation_state_scheme, 'w) op_store_scheme \<Rightarrow> bool" where
  "latest_or_superseded c w =
     (c < issued w \<and> (stopped w c \<or> (stop w = Some c \<and> enabled (state w))))"

text \<open>The events that settle the remote call of operation \<open>c\<close>.\<close>

fun settles :: "nat \<Rightarrow> query_event \<Rightarrow> bool" where
  "settles c (QSettle d out) = (c = d)"
| "settles c e = False"

fun msettles :: "nat \<Rightarrow> mutation_event \<Rightarrow> bool" where
  "msettles c (MSettle d out) = (c = d)"
| "msettles c e = False"

text \<open>
  Two stores that differ at most in whether the remote call of \<open>c\<close> is still pending and
  in what its promise became.
\<close>

definition agree_except ::
  "nat \<Rightarrow> ('s, 'w) op_store_scheme \<Rightarrow> ('s, 'w) op_store_scheme \<Rightarrow> bool" where
  "agree_except c w w' =
     (state w = state w' \<and> path w = path w' \<and> stop w = stop w' \<and> issued w = issued w'
      \<and> trace w = trace w' \<and> stopped w = stopped w'
      \<and> removeAll c (pending w) = removeAll c (pending w')
      \<and> (\<forall>d. d \<noteq> c \<longrightarrow> settled w d = settled w' d)
      \<and> op_store.more w = op_store.more w')"

text \<open>
  Every remote call that has not settled was issued, and it is superseded unless it is
  the one \<^verbatim>\<open>stop\<close> refers to.
\<close>

definition in_flight_ok :: "('s, 'w) op_store_scheme \<Rightarrow> bool" where
  "in_flight_ok w =
     (\<forall>c \<in> set (pending w). c < issued w \<and> (stopped w c \<or> stop w = Some c))"

text \<open>
  Every subscription that was opened has had its \<^verbatim>\<open>unsubscribe\<close> called, unless it is
  the one \<^verbatim>\<open>stop\<close> refers to.
\<close>

definition unsubscribed_or_latest :: "subscription_store \<Rightarrow> bool" where
  "unsubscribed_or_latest w =
     (\<forall>k. k < issued w \<longrightarrow> stop w = Some k \<or> Unsubscribe k \<in> set (trace w))"

section \<open>Properties of the proxy\<close>

lemma traverse_Proxy: "traverse props (Proxy pre) = Proxy (pre @ props)"
  unfolding traverse_def
  by (induction props arbitrary: pre) simp_all

lemma join_throws_iff: "(join sep ks = None) = (\<exists>k \<in> set ks. is_symbol k)"
proof (induction sep ks rule: join.induct)
  case (1 sep)
  show ?case by simp
next
  case (2 sep k)
  show ?case by (cases k) simp_all
next
  case (3 sep k k' ks)
  then show ?case
    by (cases k) (auto split: option.splits)
qed

lemma join_strings: "\<forall>k \<in> set ks. \<not> is_symbol k \<Longrightarrow> \<exists>r. join sep ks = Some r"
  using join_throws_iff [of sep ks] by (cases "join sep ks") auto

lemma proxy_symbol_segment_throws:
  assumes "\<exists>k \<in> set props. is_symbol k"
  shows "proxy_apply (traverse (props @ [op]) createTRPCZustand) storeOpts = ThrowsTypeError"
  using assms
  by (simp add: traverse_Proxy createTRPCZustand_def join_throws_iff [THEN iffD2])

text \<open>
  The claim C10 as it is written fails: a property key can be a symbol, and the
  \<^verbatim>\<open>join\<close> of the \<^verbatim>\<open>apply\<close> trap, which runs before the \<^verbatim>\<open>switch\<close>, throws a
  \<^verbatim>\<open>TypeError\<close> when a segment before the last one is a symbol. Here the last segment
  is none of the three names and the call throws.
\<close>

theorem proxy_symbol_segment_counterexample:
  "StrKey ''useQuery'' \<notin>
     {StrKey ''queryStore'', StrKey ''mutationStore'', StrKey ''subscriptionStore''}
   \<and> proxy_apply
       (traverse [SymKey ''Symbol.iterator'', StrKey ''useQuery''] createTRPCZustand) (Num 0)
     = ThrowsTypeError
   \<and> proxy_apply
       (traverse [SymKey ''Symbol.iterator'', StrKey ''useQuery''] createTRPCZustand) (Num 0)
     \<noteq> ReturnsUndefined"
  by (simp add: traverse_def createTRPCZustand_def)

text \<open>
  C10, amended. Any chain of property accesses on the object returned by
  \<^verbatim>\<open>createTRPCZustand\<close>, with string or symbol keys, yields a proxy that only records
  the path: nothing is evaluated or validated. When no segment before the last one is a
  symbol and the last segment is none of \<^verbatim>\<open>queryStore\<close>, \<^verbatim>\<open>mutationStore\<close>,
  \<^verbatim>\<open>subscriptionStore\<close>, calling the result returns \<^verbatim>\<open>undefined\<close>; so does calling the
  root.
\<close>

theorem proxy_unknown_terminal_on_string_path:
  "traverse props createTRPCZustand = Proxy props \<and>
   ((\<forall>k \<in> set props. \<not> is_symbol k) \<and>
    op \<notin> {StrKey ''queryStore'', StrKey ''mutationStore'', StrKey ''subscriptionStore''}
    \<longrightarrow> proxy_apply (traverse (props @ [op]) createTRPCZustand) storeOpts
          = ReturnsUndefined) \<and>
   proxy_apply createTRPCZustand storeOpts = ReturnsUndefined"
proof -
  have t: "traverse props createTRPCZustand = Proxy props"
    by (simp add: traverse_Proxy createTRPCZustand_def)
  have r: "proxy_apply createTRPCZustand storeOpts = ReturnsUndefined"
    by (simp add: createTRPCZustand_def)
  have u: "proxy_apply (traverse (props @ [op]) createTRPCZustand) storeOpts
          = ReturnsUndefined"
    if a: "\<forall>k \<in> set props. \<not> is_symbol k"
      and b: "op \<notin> {StrKey ''queryStore'', StrKey ''mutationStore'', StrKey ''subscriptionStore''}"
  proof -
    obtain x where "join ''.'' props = Some x"
      using join_strings [OF a] by blast
    then show ?thesis
      using b by (simp add: traverse_Proxy createTRPCZustand_def)
  qed
  show ?thesis
    using t r u by blast
qed

theorem proxy_unknown_terminal_on_string_path_witness:
  "\<not> is_symbol (StrKey ''todos'') \<and> \<not> is_symbol (StrKey ''getTodos'') \<and>
   SymKey ''Symbol.toStringTag'' \<notin>
     {StrKey ''queryStore'', StrKey ''mutationStore'', StrKey ''subscriptionStore''} \<and>
   traverse [StrKey ''todos'', StrKey ''getTodos''] createTRPCZustand
     = Proxy [StrKey ''todos'', StrKey ''getTodos''] \<and>
   proxy_apply
     (traverse ([StrKey ''todos'', StrKey ''getTodos''] @ [SymKey ''Symbol.toStringTag''])
        createTRPCZustand) (Num 0) = ReturnsUndefined"
  using proxy_unknown_terminal_on_string_path
          [of "[StrKey ''todos'', StrKey ''getTodos'']" "SymKey ''Symbol.toStringTag''" "Num 0"]
  by simp

section \<open>Properties of the stores\<close>

lemmas op_defs = enable_def disable_def toggle_def reset_def set_op_def call_stop_def
  initialState_def Let_def

lemmas sub_defs = sub_enable_def sub_disable_def sub_toggle_def sub_reset_def set_sub_def
  sub_call_stop_def sub_initialState_def Let_def

text \<open>
  C2. In a store whose \<^verbatim>\<open>enabled\<close> is false, \<^verbatim>\<open>query\<close>, \<^verbatim>\<open>refetch\<close> and \<^verbatim>\<open>mutate\<close>
  return a promise rejected with the error of a disabled store, \<^verbatim>\<open>subscribe\<close> throws
  it, and the store is left exactly as it was: no state change, no effect. After
  \<^verbatim>\<open>disable()\<close> the store is in that situation.
\<close>

theorem disabled_trigger_fails_without_mutation:
  assumes "\<not> enabled (state wq)" and "\<not> enabled (state wm)" and "\<not> enabled (state ws)"
  shows "query inp opts wq = (Rejected (ErrorObj ''Query is disabled''), wq)
       \<and> refetch opts wq = (Rejected (ErrorObj ''Query is disabled''), wq)
       \<and> mutate inp opts wm = (Rejected (ErrorObj ''Mutation is disabled''), wm)
       \<and> subscribe inp cbs opts ws = (Inl (ErrorObj ''Subscription is disabled''), ws)
       \<and> \<not> enabled (state (disable wq'))
       \<and> \<not> enabled (state (disable wm'))
       \<and> \<not> enabled (state (sub_disable ws'))"
  using assms
  by (simp add: query_def refetch_def mutate_def subscribe_def disable_def sub_disable_def
        set_op_def set_sub_def initialState_def sub_initialState_def)

theorem disabled_trigger_fails_without_mutation_witness:
  "\<not> enabled (state (disable (queryStoreCreatorFactory ''todos.getTodos''
        \<lparr>opt_enabled = None, opt_keepPreviousData = None\<rparr>)))
   \<and> \<not> enabled (state (mutationStoreCreatorFactory ''todos.addTodo''
        \<lparr>mopt_enabled = Some False, mopt_refetchStores = None\<rparr>))
   \<and> \<not> enabled (state (sub_disable (subscriptionStoreCreatorFactory ''todos.streamTodos''
        \<lparr>sopt_enabled = None\<rparr>)))
   \<and> query (Num 1) Undefined (disable (queryStoreCreatorFactory ''todos.getTodos''
        \<lparr>opt_enabled = None, opt_keepPreviousData = None\<rparr>))
      = (Rejected (ErrorObj ''Query is disabled''),
         disable (queryStoreCreatorFactory ''todos.getTodos''
           \<lparr>opt_enabled = None, opt_keepPreviousData = None\<rparr>))
   \<and> mutate (Num 1) Undefined (mutationStoreCreatorFactory ''todos.addTodo''
        \<lparr>mopt_enabled = Some False, mopt_refetchStores = None\<rparr>)
      = (Rejected (ErrorObj ''Mutation is disabled''),
         mutationStoreCreatorFactory ''todos.addTodo''
           \<lparr>mopt_enabled = Some False, mopt_refetchStores = None\<rparr>)
   \<and> subscribe (Num 1) \<lparr>cb_onStarted = False, cb_onData = True, cb_onError = False\<rparr> Undefined
        (sub_disable (subscriptionStoreCreatorFactory ''todos.streamTodos''
           \<lparr>sopt_enabled = None\<rparr>))
      = (Inl (ErrorObj ''Subscription is disabled''),
         sub_disable (subscriptionStoreCreatorFactory ''todos.streamTodos''
           \<lparr>sopt_enabled = None\<rparr>))"
proof -
  let ?wq = "disable (queryStoreCreatorFactory ''todos.getTodos''
        \<lparr>opt_enabled = None, opt_keepPreviousData = None\<rparr>)"
  let ?wm = "mutationStoreCreatorFactory ''todos.addTodo''
        \<lparr>mopt_enabled = Some False, mopt_refetchStores = None\<rparr>"
  let ?ws = "sub_disable (subscriptionStoreCreatorFactory ''todos.streamTodos''
        \<lparr>sopt_enabled = None\<rparr>)"
  have q: "\<not> enabled (state ?wq)"
    by (simp add: op_defs)
  have m: "\<not> enabled (state ?wm)"
    by (simp add: mutationStoreCreatorFactory_def)
  have s: "\<not> enabled (state ?ws)"
    by (simp add: sub_defs)
  show ?thesis
    using q m s
      disabled_trigger_fails_without_mutation [OF q m s, of "Num 1" Undefined
        "\<lparr>cb_onStarted = False, cb_onData = True, cb_onError = False\<rparr>"]
    by blast
qed

lemma keepPreviousData_query_step:
  "keepPreviousData (state (query_step e w)) = keepPreviousData (state w)"
  by (cases e)
     (auto simp: op_defs query_def refetch_def query_settle_def
           split: option.splits outcome.splits)

lemma keepPreviousData_query_run:
  "keepPreviousData (state (query_run es w)) = keepPreviousData (state w)"
  unfolding query_run_def
  by (induction es arbitrary: w) (simp_all add: keepPreviousData_query_step)

text \<open>
  C4. A call of \<^verbatim>\<open>query(input, opts)\<close> on an enabled store returns a promise that
  waits for the remote call, and up to there it has called \<^verbatim>\<open>set\<close> once and then the
  client, in this order: \<^verbatim>\<open>loading\<close> is true, \<^verbatim>\<open>input\<close> is stored, \<^verbatim>\<open>error\<close> is
  cleared, and \<^verbatim>\<open>data\<close> is kept if \<^verbatim>\<open>keepPreviousData\<close> is true and cleared
  otherwise. \<^verbatim>\<open>keepPreviousData\<close> is what the store options said, true by default, at
  every moment of the store's life.
\<close>

theorem query_sets_loading_before_remote_call:
  assumes "enabled (state w)"
  shows "fst (query inp opts w) = Awaiting (issued w)
       \<and> state (snd (query inp opts w)) =
           (state w)\<lparr>input := inp, loading := True,
                      data := (if keepPreviousData (state w) then data (state w)
                               else Undefined),
                      error := Undefined\<rparr>
       \<and> trace (snd (query inp opts w)) = trace w @
           [Set [Input inp, Loading True,
                 Data (if keepPreviousData (state w) then data (state w) else Undefined),
                 Error Undefined],
            ClientQuery (issued w) (path w) inp opts]
       \<and> keepPreviousData (state (query_run es (queryStoreCreatorFactory p sopts))) =
           (opt_keepPreviousData sopts \<noteq> Some False)"
proof -
  have "keepPreviousData (state (queryStoreCreatorFactory p sopts)) =
          (opt_keepPreviousData sopts \<noteq> Some False)"
    by (auto simp: queryStoreCreatorFactory_def split: option.splits)
  then show ?thesis
    using assms
    by (simp add: keepPreviousData_query_run query_def call_stop_def set_op_def Let_def
             split: option.splits)
qed

theorem query_sets_loading_before_remote_call_witness:
  "enabled (state (query_run [QQuery (Num 1) Undefined, QSettle 0 (Resolve (Str ''old''))]
       (queryStoreCreatorFactory ''todos.getTodos''
          \<lparr>opt_enabled = None, opt_keepPreviousData = None\<rparr>)))
   \<and> state (snd (query (Num 2) Undefined
       (query_run [QQuery (Num 1) Undefined, QSettle 0 (Resolve (Str ''old''))]
          (queryStoreCreatorFactory ''todos.getTodos''
             \<lparr>opt_enabled = None, opt_keepPreviousData = None\<rparr>))))
     = \<lparr>enabled = True, input = Num 2, data = Str ''old'', error = Undefined,
        loading = True, keepPreviousData = True\<rparr>"
proof -
  let ?w = "query_run [QQuery (Num 1) Undefined, QSettle 0 (Resolve (Str ''old''))]
       (queryStoreCreatorFactory ''todos.getTodos''
          \<lparr>opt_enabled = None, opt_keepPreviousData = None\<rparr>)"
  have s: "state ?w = \<lparr>enabled = True, input = Num 1, data = Str ''old'', error = Undefined,
        loading = False, keepPreviousData = True\<rparr>"
    by (simp add: query_run_def queryStoreCreatorFactory_def query_def query_settle_def
          call_stop_def set_op_def Let_def)
  have e: "enabled (state ?w)"
    by (simp add: s)
  show ?thesis
    using e query_sets_loading_before_remote_call [OF e, of "Num 2" Undefined]
    by (simp add: s)
qed

subsection \<open>The latest call wins\<close>

lemma superseded_query_step: "superseded c w \<Longrightarrow> superseded c (query_step e w)"
  by (cases e)
     (auto simp: superseded_def op_defs query_def refetch_def query_settle_def
           split: option.splits outcome.splits)

lemma los_query_step:
  "latest_or_superseded c w \<Longrightarrow> latest_or_superseded c (query_step e w)"
  by (cases e)
     (auto simp: latest_or_superseded_def op_defs query_def refetch_def query_settle_def
           split: option.splits outcome.splits)

lemma superseded_query_run: "superseded c w \<Longrightarrow> superseded c (query_run es w)"
  unfolding query_run_def
  by (induction es arbitrary: w) (simp_all add: superseded_query_step)

lemma los_query_run: "latest_or_superseded c w \<Longrightarrow> latest_or_superseded c (query_run es w)"
  unfolding query_run_def
  by (induction es arbitrary: w) (simp_all add: los_query_step)

lemma los_after_query:
  "enabled (state w) \<Longrightarrow> latest_or_superseded (issued w) (snd (query a oa w))"
  by (auto simp: latest_or_superseded_def op_defs query_def split: option.splits)

lemma superseded_by_query:
  "latest_or_superseded c w \<Longrightarrow> superseded c (snd (query b ob w))"
  by (auto simp: latest_or_superseded_def superseded_def op_defs query_def split: option.splits)

lemma settle_superseded:
  "superseded c w \<Longrightarrow>
     state (query_settle c out w) = state w \<and> trace (query_settle c out w) = trace w"
  by (auto simp: superseded_def query_settle_def Let_def split: outcome.splits)

lemma query_run_append: "query_run (xs @ ys) w = query_run ys (query_run xs w)"
  by (simp add: query_run_def)

lemma query_run_Cons: "query_run (e # es) w = query_run es (query_step e w)"
  by (simp add: query_run_def)

lemma removeAll_eq_mem:
  "removeAll c xs = removeAll c ys \<Longrightarrow> d \<noteq> c \<Longrightarrow> (d \<in> set xs) = (d \<in> set ys)"
proof -
  assume h: "removeAll c xs = removeAll c ys" and n: "d \<noteq> c"
  have "(d \<in> set xs) = (d \<in> set (removeAll c xs))" using n by simp
  also have "\<dots> = (d \<in> set (removeAll c ys))" using h by simp
  also have "\<dots> = (d \<in> set ys)" using n by simp
  finally show ?thesis .
qed

lemma removeAll_eq_removeAll:
  "removeAll c xs = removeAll c ys \<Longrightarrow>
     removeAll c (removeAll d xs) = removeAll c (removeAll d ys)"
  by (metis removeAll_commute)

lemma agree_refl: "agree_except c w w"
  by (simp add: agree_except_def)

lemma agree_settle_own:
  assumes "superseded c w" and "agree_except c w w'"
  shows "agree_except c (query_settle c out w) w'"
  using assms
  by (auto simp: superseded_def agree_except_def query_settle_def Let_def
           split: outcome.splits)

lemma agree_settle_other:
  assumes "agree_except c w w'" and "d \<noteq> c"
  shows "agree_except c (query_settle d out w) (query_settle d out w')"
proof -
  have m: "(d \<in> set (pending w)) = (d \<in> set (pending w'))"
    using assms by (auto simp: agree_except_def dest: removeAll_eq_mem)
  have r: "removeAll c (removeAll d (pending w)) = removeAll c (removeAll d (pending w'))"
    using assms by (auto simp: agree_except_def intro: removeAll_eq_removeAll)
  show ?thesis
    using assms m r
    by (auto simp: agree_except_def query_settle_def set_op_def Let_def
             split: outcome.splits)
qed

lemma agree_controls:
  assumes "agree_except c w w'"
  shows "agree_except c (enable w) (enable w')"
    and "agree_except c (disable w) (disable w')"
    and "agree_except c (toggle w) (toggle w')"
    and "agree_except c (reset w) (reset w')"
  using assms
  by (auto simp: agree_except_def op_defs split: option.splits)

lemma agree_query:
  assumes "agree_except c w w'"
  shows "agree_except c (snd (query a oa w)) (snd (query a oa w'))"
  using assms
  by (auto simp: agree_except_def op_defs query_def split: option.splits)

lemma agree_query_step:
  assumes "superseded c w" and "agree_except c w w'"
  shows "agree_except c (query_step e w) (if settles c e then w' else query_step e w')"
proof (cases e)
  case (QSettle d out)
  then show ?thesis
    using assms by (cases "d = c") (simp_all add: agree_settle_own agree_settle_other)
next
  case (QRefetch o1)
  have "input (state w) = input (state w')"
    using assms by (simp add: agree_except_def)
  then show ?thesis
    using QRefetch assms by (simp add: refetch_def agree_query)
qed (use assms in \<open>simp_all add: agree_controls agree_query\<close>)

lemma agree_query_run:
  assumes "superseded c w" and "agree_except c w w'"
  shows "agree_except c (query_run es w) (query_run (filter (\<lambda>e. \<not> settles c e) es) w')"
  using assms
proof (induction es arbitrary: w w')
  case Nil
  then show ?case by (simp add: query_run_def)
next
  case (Cons e es)
  have s: "superseded c (query_step e w)"
    using Cons.prems(1) by (rule superseded_query_step)
  have a: "agree_except c (query_step e w) (if settles c e then w' else query_step e w')"
    using Cons.prems by (rule agree_query_step)
  show ?case
    using Cons.IH [OF s a] by (cases "settles c e") (simp_all add: query_run_Cons)
qed

lemma mutation_settle_frame:
  "stop (mutation_settle c out w) = stop w"
  "issued (mutation_settle c out w) = issued w"
  "stopped (mutation_settle c out w) = stopped w"
  "path (mutation_settle c out w) = path w"
  "pending (mutation_settle c out w) = removeAll c (pending w)"
  "refetchStores (mutation_settle c out w) = refetchStores w"
  "enabled (state (mutation_settle c out w)) = enabled (state w)"
  "input (state (mutation_settle c out w)) = input (state w)"
  by (auto simp: mutation_settle_def mutate_catch_def set_op_def Let_def
           split: outcome.splits prod.splits option.splits)

lemma superseded_mutation_step: "superseded c w \<Longrightarrow> superseded c (mutation_step e w)"
  by (cases e)
     (auto simp: superseded_def op_defs mutate_def mutation_settle_frame
           split: option.splits)

lemma los_mutation_step:
  "latest_or_superseded c w \<Longrightarrow> latest_or_superseded c (mutation_step e w)"
  by (cases e)
     (auto simp: latest_or_superseded_def op_defs mutate_def mutation_settle_frame
           split: option.splits)

lemma mutation_run_append: "mutation_run (xs @ ys) w = mutation_run ys (mutation_run xs w)"
  by (simp add: mutation_run_def)

lemma mutation_run_Cons: "mutation_run (e # es) w = mutation_run es (mutation_step e w)"
  by (simp add: mutation_run_def)

lemma superseded_mutation_run: "superseded c w \<Longrightarrow> superseded c (mutation_run es w)"
  unfolding mutation_run_def
  by (induction es arbitrary: w) (simp_all add: superseded_mutation_step)

lemma los_mutation_run:
  "latest_or_superseded c w \<Longrightarrow> latest_or_superseded c (mutation_run es w)"
  unfolding mutation_run_def
  by (induction es arbitrary: w) (simp_all add: los_mutation_step)

lemma los_after_mutate:
  "enabled (state w) \<Longrightarrow> latest_or_superseded (issued w) (snd (mutate a oa w))"
  by (auto simp: latest_or_superseded_def op_defs mutate_def split: option.splits)

lemma superseded_by_mutate:
  "latest_or_superseded c w \<Longrightarrow> superseded c (snd (mutate b ob w))"
  by (auto simp: latest_or_superseded_def superseded_def op_defs mutate_def
           split: option.splits)

lemma msettle_superseded:
  "superseded c w \<Longrightarrow>
     state (mutation_settle c out w) = state w \<and> trace (mutation_settle c out w) = trace w"
  by (auto simp: superseded_def mutation_settle_def mutate_catch_def Let_def
           split: outcome.splits)

lemma agree_msettle_own:
  assumes "superseded c w" and "agree_except c w w'"
  shows "agree_except c (mutation_settle c out w) w'"
  using assms
  by (auto simp: superseded_def agree_except_def mutation_settle_def mutate_catch_def Let_def
           split: outcome.splits)

lemma agree_msettle_other:
  assumes "agree_except c w w'" and "d \<noteq> c"
  shows "agree_except c (mutation_settle d out w) (mutation_settle d out w')"
proof -
  have m: "(d \<in> set (pending w)) = (d \<in> set (pending w'))"
    using assms by (auto simp: agree_except_def dest: removeAll_eq_mem)
  have r: "removeAll c (removeAll d (pending w)) = removeAll c (removeAll d (pending w'))"
    using assms by (auto simp: agree_except_def intro: removeAll_eq_removeAll)
  have f: "refetchStores w = refetchStores w'"
    using assms(1) by (cases w, cases w') (simp add: agree_except_def)
  show ?thesis
    using assms m r f
    by (auto simp: agree_except_def mutation_settle_def mutate_catch_def set_op_def Let_def
             split: outcome.splits prod.splits option.splits)
qed

lemma agree_mutate:
  assumes "agree_except c w w'"
  shows "agree_except c (snd (mutate a oa w)) (snd (mutate a oa w'))"
  using assms
  by (auto simp: agree_except_def op_defs mutate_def split: option.splits)

lemma agree_mutation_step:
  assumes "superseded c w" and "agree_except c w w'"
  shows "agree_except c (mutation_step e w) (if msettles c e then w' else mutation_step e w')"
proof (cases e)
  case (MSettle d out)
  then show ?thesis
    using assms by (cases "d = c") (simp_all add: agree_msettle_own agree_msettle_other)
qed (use assms in \<open>simp_all add: agree_controls agree_mutate\<close>)

lemma agree_mutation_run:
  assumes "superseded c w" and "agree_except c w w'"
  shows "agree_except c (mutation_run es w)
           (mutation_run (filter (\<lambda>e. \<not> msettles c e) es) w')"
  using assms
proof (induction es arbitrary: w w')
  case Nil
  then show ?case by (simp add: mutation_run_def)
next
  case (Cons e es)
  have s: "superseded c (mutation_step e w)"
    using Cons.prems(1) by (rule superseded_mutation_step)
  have a: "agree_except c (mutation_step e w)
             (if msettles c e then w' else mutation_step e w')"
    using Cons.prems by (rule agree_mutation_step)
  show ?case
    using Cons.IH [OF s a] by (cases "msettles c e") (simp_all add: mutation_run_Cons)
qed

lemma settle_latest:
  assumes "d \<in> set (pending w)" and "\<not> stopped w d"
  shows "state (query_settle d (Resolve r) w) = (state w)\<lparr>loading := False, data := r\<rparr>"
    and "state (query_settle d (Reject e) w) = (state w)\<lparr>loading := False, error := e\<rparr>"
  using assms by (simp_all add: query_settle_def set_op_def Let_def)

lemma settle_other_keeps:
  assumes "d \<noteq> c"
  shows "(d \<in> set (pending (query_settle c out w))) = (d \<in> set (pending w))"
    and "stopped (query_settle c out w) = stopped w"
  using assms by (auto simp: query_settle_def set_op_def Let_def split: outcome.splits)

lemma query_started:
  assumes "enabled (state w)"
  shows "issued w \<in> set (pending (snd (query b ob w)))"
    and "\<not> stopped (snd (query b ob w)) (issued w)"
    and "state (snd (query b ob w)) =
          (state w)\<lparr>input := b, loading := True,
                     data := (if keepPreviousData (state w) then data (state w) else Undefined),
                     error := Undefined\<rparr>"
  using assms by (simp_all add: query_def call_stop_def set_op_def Let_def split: option.splits)

lemma query_final_state:
  assumes en: "enabled (state w)" and c: "latest_or_superseded c w"
  shows "state (query_settle (issued w) (Resolve r) (query_settle c out (snd (query b ob w)))) =
          (state w)\<lparr>input := b, loading := False, data := r, error := Undefined\<rparr>"
    and "state (query_settle (issued w) (Reject e) (query_settle c out (snd (query b ob w)))) =
          (state w)\<lparr>input := b, loading := False,
                     data := (if keepPreviousData (state w) then data (state w) else Undefined),
                     error := e\<rparr>"
proof -
  let ?w3 = "snd (query b ob w)"
  have ne: "issued w \<noteq> c"
    using c by (auto simp: latest_or_superseded_def)
  have s: "superseded c ?w3"
    using c by (rule superseded_by_query)
  have p: "issued w \<in> set (pending (query_settle c out ?w3))"
    using ne en by (simp add: settle_other_keeps query_started)
  have n: "\<not> stopped (query_settle c out ?w3) (issued w)"
    using ne en by (simp add: settle_other_keeps query_started)
  have st: "state (query_settle c out ?w3) = state ?w3"
    using s by (simp add: settle_superseded)
  show "state (query_settle (issued w) (Resolve r) (query_settle c out ?w3)) =
          (state w)\<lparr>input := b, loading := False, data := r, error := Undefined\<rparr>"
    using en by (simp add: settle_latest [OF p n] st query_started)
  show "state (query_settle (issued w) (Reject e) (query_settle c out ?w3)) =
          (state w)\<lparr>input := b, loading := False,
                     data := (if keepPreviousData (state w) then data (state w) else Undefined),
                     error := e\<rparr>"
    using en by (simp add: settle_latest [OF p n] st query_started)
qed

lemma query_superseded_part:
  fixes wq :: query_store
  assumes "enabled (state wq)"
  shows "(let c = issued wq;
              w2 = query_run (QQuery a oa # mid) wq;
              w3 = query_step (QQuery b ob) w2;
              w4 = query_run post w3
          in state (query_settle c out w4) = state w4
           \<and> trace (query_settle c out w4) = trace w4
           \<and> state w4 = state (query_run (filter (\<lambda>e. \<not> settles c e) post) w3)
           \<and> trace w4 = trace (query_run (filter (\<lambda>e. \<not> settles c e) post) w3)
           \<and> (enabled (state w2) \<longrightarrow>
                state (query_settle (issued w2) (Resolve r) (query_settle c out w3)) =
                  (state w2)\<lparr>input := b, loading := False, data := r, error := Undefined\<rparr>
              \<and> state (query_settle (issued w2) (Reject e) (query_settle c out w3)) =
                  (state w2)\<lparr>input := b, loading := False,
                     data := (if keepPreviousData (state w2) then data (state w2)
                              else Undefined),
                     error := e\<rparr>))"
proof -
  let ?c = "issued wq"
  let ?w2 = "query_run (QQuery a oa # mid) wq"
  let ?w3 = "query_step (QQuery b ob) ?w2"
  let ?w4 = "query_run post ?w3"
  have l2: "latest_or_superseded ?c ?w2"
    using assms by (simp add: query_run_Cons los_after_query los_query_run)
  have s3: "superseded ?c ?w3"
    using l2 by (simp add: superseded_by_query)
  have s4: "superseded ?c ?w4"
    using s3 by (rule superseded_query_run)
  have ag: "agree_except ?c ?w4 (query_run (filter (\<lambda>e. \<not> settles ?c e) post) ?w3)"
    using s3 agree_refl by (rule agree_query_run)
  have i: "state (query_settle ?c out ?w4) = state ?w4
         \<and> trace (query_settle ?c out ?w4) = trace ?w4"
    using s4 by (rule settle_superseded)
  have iii: "state ?w4 = state (query_run (filter (\<lambda>e. \<not> settles ?c e) post) ?w3)
           \<and> trace ?w4 = trace (query_run (filter (\<lambda>e. \<not> settles ?c e) post) ?w3)"
    using ag by (simp add: agree_except_def)
  have ii: "enabled (state ?w2) \<longrightarrow>
                state (query_settle (issued ?w2) (Resolve r) (query_settle ?c out ?w3)) =
                  (state ?w2)\<lparr>input := b, loading := False, data := r, error := Undefined\<rparr>
              \<and> state (query_settle (issued ?w2) (Reject e) (query_settle ?c out ?w3)) =
                  (state ?w2)\<lparr>input := b, loading := False,
                     data := (if keepPreviousData (state ?w2) then data (state ?w2)
                              else Undefined),
                     error := e\<rparr>"
    using l2 by (simp add: query_final_state)
  show ?thesis
    unfolding Let_def using i ii iii by blast
qed

lemma msettle_latest:
  assumes "d \<in> set (pending w)" and "\<not> stopped w d"
  shows "state (mutation_settle d (Resolve r) w) =
          (case snd (refetch_all (refetchStores w)) of
             None \<Rightarrow> (state w)\<lparr>loading := False, data := r\<rparr>
           | Some v \<Rightarrow> (state w)\<lparr>loading := False, data := r, error := v\<rparr>)"
    and "state (mutation_settle d (Reject e) w) = (state w)\<lparr>loading := False, error := e\<rparr>"
  using assms
  by (auto simp: mutation_settle_def mutate_catch_def set_op_def Let_def
           split: prod.splits option.splits)

lemma msettle_other_keeps:
  assumes "d \<noteq> c"
  shows "(d \<in> set (pending (mutation_settle c out w))) = (d \<in> set (pending w))"
    and "stopped (mutation_settle c out w) = stopped w"
  using assms by (auto simp: mutation_settle_frame)

lemma mutate_started:
  assumes "enabled (state w)"
  shows "issued w \<in> set (pending (snd (mutate b ob w)))"
    and "\<not> stopped (snd (mutate b ob w)) (issued w)"
    and "state (snd (mutate b ob w)) =
          (state w)\<lparr>input := b, loading := True, data := Undefined, error := Undefined\<rparr>"
    and "refetchStores (snd (mutate b ob w)) = refetchStores w"
  using assms by (simp_all add: mutate_def call_stop_def set_op_def Let_def split: option.splits)

lemma mutation_final_state:
  assumes en: "enabled (state w)" and c: "latest_or_superseded c w"
  shows "state (mutation_settle (issued w) (Resolve r)
            (mutation_settle c out (snd (mutate b ob w)))) =
          (state w)\<lparr>input := b, loading := False, data := r,
                     error := (case snd (refetch_all (refetchStores w)) of
                                 None \<Rightarrow> Undefined | Some v \<Rightarrow> v)\<rparr>"
    and "state (mutation_settle (issued w) (Reject e)
            (mutation_settle c out (snd (mutate b ob w)))) =
          (state w)\<lparr>input := b, loading := False, data := Undefined, error := e\<rparr>"
proof -
  let ?w3 = "snd (mutate b ob w)"
  have ne: "issued w \<noteq> c"
    using c by (auto simp: latest_or_superseded_def)
  have s: "superseded c ?w3"
    using c by (rule superseded_by_mutate)
  have p: "issued w \<in> set (pending (mutation_settle c out ?w3))"
    using ne en by (simp add: msettle_other_keeps mutate_started)
  have n: "\<not> stopped (mutation_settle c out ?w3) (issued w)"
    using ne en by (simp add: msettle_other_keeps mutate_started)
  have st: "state (mutation_settle c out ?w3) = state ?w3"
    using s by (simp add: msettle_superseded)
  have f: "refetchStores (mutation_settle c out ?w3) = refetchStores w"
    using en by (simp add: mutation_settle_frame mutate_started)
  show "state (mutation_settle (issued w) (Resolve r) (mutation_settle c out ?w3)) =
          (state w)\<lparr>input := b, loading := False, data := r,
                     error := (case snd (refetch_all (refetchStores w)) of
                                 None \<Rightarrow> Undefined | Some v \<Rightarrow> v)\<rparr>"
    using en by (simp add: msettle_latest [OF p n] st f mutate_started split: option.splits)
  show "state (mutation_settle (issued w) (Reject e) (mutation_settle c out ?w3)) =
          (state w)\<lparr>input := b, loading := False, data := Undefined, error := e\<rparr>"
    using en by (simp add: msettle_latest [OF p n] st mutate_started)
qed

lemma mutation_superseded_part:
  fixes wm :: mutation_store
  assumes "enabled (state wm)"
  shows "(let c = issued wm;
              w2 = mutation_run (MMutate a oa # mid) wm;
              w3 = mutation_step (MMutate b ob) w2;
              w4 = mutation_run post w3
          in state (mutation_settle c out w4) = state w4
           \<and> trace (mutation_settle c out w4) = trace w4
           \<and> state w4 = state (mutation_run (filter (\<lambda>e. \<not> msettles c e) post) w3)
           \<and> trace w4 = trace (mutation_run (filter (\<lambda>e. \<not> msettles c e) post) w3)
           \<and> (enabled (state w2) \<longrightarrow>
                state (mutation_settle (issued w2) (Resolve r) (mutation_settle c out w3)) =
                  (state w2)\<lparr>input := b, loading := False, data := r,
                     error := (case snd (refetch_all (refetchStores w2)) of
                                 None \<Rightarrow> Undefined | Some v \<Rightarrow> v)\<rparr>
              \<and> state (mutation_settle (issued w2) (Reject e) (mutation_settle c out w3)) =
                  (state w2)\<lparr>input := b, loading := False, data := Undefined,
                             error := e\<rparr>))"
proof -
  let ?c = "issued wm"
  let ?w2 = "mutation_run (MMutate a oa # mid) wm"
  let ?w3 = "mutation_step (MMutate b ob) ?w2"
  let ?w4 = "mutation_run post ?w3"
  have l2: "latest_or_superseded ?c ?w2"
    using assms by (simp add: mutation_run_Cons los_after_mutate los_mutation_run)
  have s3: "superseded ?c ?w3"
    using l2 by (simp add: superseded_by_mutate)
  have s4: "superseded ?c ?w4"
    using s3 by (rule superseded_mutation_run)
  have ag: "agree_except ?c ?w4 (mutation_run (filter (\<lambda>e. \<not> msettles ?c e) post) ?w3)"
    using s3 agree_refl by (rule agree_mutation_run)
  have i: "state (mutation_settle ?c out ?w4) = state ?w4
         \<and> trace (mutation_settle ?c out ?w4) = trace ?w4"
    using s4 by (rule msettle_superseded)
  have iii: "state ?w4 = state (mutation_run (filter (\<lambda>e. \<not> msettles ?c e) post) ?w3)
           \<and> trace ?w4 = trace (mutation_run (filter (\<lambda>e. \<not> msettles ?c e) post) ?w3)"
    using ag by (simp add: agree_except_def)
  have ii: "enabled (state ?w2) \<longrightarrow>
                state (mutation_settle (issued ?w2) (Resolve r) (mutation_settle ?c out ?w3)) =
                  (state ?w2)\<lparr>input := b, loading := False, data := r,
                     error := (case snd (refetch_all (refetchStores ?w2)) of
                                 None \<Rightarrow> Undefined | Some v \<Rightarrow> v)\<rparr>
              \<and> state (mutation_settle (issued ?w2) (Reject e) (mutation_settle ?c out ?w3)) =
                  (state ?w2)\<lparr>input := b, loading := False, data := Undefined,
                             error := e\<rparr>"
    using l2 by (simp add: mutation_final_state)
  show ?thesis
    unfolding Let_def using i ii iii by blast
qed

text \<open>
  C1. A query store is enabled and \<^verbatim>\<open>query(a)\<close> starts remote call \<open>c\<close>. After any
  events \<open>mid\<close>, \<^verbatim>\<open>query(b)\<close> is called, and any events \<open>post\<close> follow. Then, whenever
  the remote call of \<open>a\<close> settles, with whatever outcome, the state is not changed and
  \<^verbatim>\<open>set\<close> is not called (the trace is the same); the state and the trace after \<open>post\<close>
  are those of the history from which the settlements of \<open>a\<close> are removed; and when
  \<open>b\<close> started a remote call and \<open>a\<close> and then \<open>b\<close> settle, the state is the one that
  \<open>b\<close>'s start and \<open>b\<close>'s outcome give. The same holds for \<^verbatim>\<open>mutate\<close> on a mutation
  store, where the outcome of a resolved \<open>b\<close> includes the error that its refetches
  throw, if they throw.
\<close>

theorem superseded_call_never_sets:
  fixes wq :: query_store and wm :: mutation_store
  assumes "enabled (state wq)" and "enabled (state wm)"
  shows "(let c = issued wq;
              w2 = query_run (QQuery a oa # mid) wq;
              w3 = query_step (QQuery b ob) w2;
              w4 = query_run post w3
          in state (query_settle c out w4) = state w4
           \<and> trace (query_settle c out w4) = trace w4
           \<and> state w4 = state (query_run (filter (\<lambda>e. \<not> settles c e) post) w3)
           \<and> trace w4 = trace (query_run (filter (\<lambda>e. \<not> settles c e) post) w3)
           \<and> (enabled (state w2) \<longrightarrow>
                state (query_settle (issued w2) (Resolve r) (query_settle c out w3)) =
                  (state w2)\<lparr>input := b, loading := False, data := r, error := Undefined\<rparr>
              \<and> state (query_settle (issued w2) (Reject e) (query_settle c out w3)) =
                  (state w2)\<lparr>input := b, loading := False,
                     data := (if keepPreviousData (state w2) then data (state w2)
                              else Undefined),
                     error := e\<rparr>))
       \<and> (let c = issued wm;
              w2 = mutation_run (MMutate ma moa # mmid) wm;
              w3 = mutation_step (MMutate mb mob) w2;
              w4 = mutation_run mpost w3
          in state (mutation_settle c out w4) = state w4
           \<and> trace (mutation_settle c out w4) = trace w4
           \<and> state w4 = state (mutation_run (filter (\<lambda>e. \<not> msettles c e) mpost) w3)
           \<and> trace w4 = trace (mutation_run (filter (\<lambda>e. \<not> msettles c e) mpost) w3)
           \<and> (enabled (state w2) \<longrightarrow>
                state (mutation_settle (issued w2) (Resolve r) (mutation_settle c out w3)) =
                  (state w2)\<lparr>input := mb, loading := False, data := r,
                     error := (case snd (refetch_all (refetchStores w2)) of
                                 None \<Rightarrow> Undefined | Some v \<Rightarrow> v)\<rparr>
              \<and> state (mutation_settle (issued w2) (Reject e) (mutation_settle c out w3)) =
                  (state w2)\<lparr>input := mb, loading := False, data := Undefined,
                             error := e\<rparr>))"
  using query_superseded_part [OF assms(1)] mutation_superseded_part [OF assms(2)]
  by blast

theorem superseded_call_never_sets_witness:
  "enabled (state (queryStoreCreatorFactory ''todos.getTodos''
       \<lparr>opt_enabled = None, opt_keepPreviousData = None\<rparr>))
   \<and> enabled (state (mutationStoreCreatorFactory ''todos.addTodo''
       \<lparr>mopt_enabled = None, mopt_refetchStores = None\<rparr>))
   \<and> enabled (state (query_run (QQuery (Num 1) Undefined # [])
       (queryStoreCreatorFactory ''todos.getTodos''
          \<lparr>opt_enabled = None, opt_keepPreviousData = None\<rparr>)))
   \<and> enabled (state (mutation_run (MMutate (Num 1) Undefined # [])
       (mutationStoreCreatorFactory ''todos.addTodo''
          \<lparr>mopt_enabled = None, mopt_refetchStores = None\<rparr>)))
   \<and> state (query_settle 1 (Resolve (Str ''b'')) (query_settle 0 (Resolve (Str ''a''))
        (query_step (QQuery (Num 2) Undefined) (query_run (QQuery (Num 1) Undefined # [])
          (queryStoreCreatorFactory ''todos.getTodos''
             \<lparr>opt_enabled = None, opt_keepPreviousData = None\<rparr>)))))
     = \<lparr>enabled = True, input = Num 2, data = Str ''b'', error = Undefined,
        loading = False, keepPreviousData = True\<rparr>
   \<and> state (mutation_settle 1 (Resolve (Str ''b'')) (mutation_settle 0 (Resolve (Str ''a''))
        (mutation_step (MMutate (Num 2) Undefined)
          (mutation_run (MMutate (Num 1) Undefined # [])
            (mutationStoreCreatorFactory ''todos.addTodo''
               \<lparr>mopt_enabled = None, mopt_refetchStores = None\<rparr>)))))
     = \<lparr>enabled = True, input = Num 2, data = Str ''b'', error = Undefined,
        loading = False\<rparr>"
proof -
  let ?wq = "queryStoreCreatorFactory ''todos.getTodos''
       \<lparr>opt_enabled = None, opt_keepPreviousData = None\<rparr>"
  let ?wm = "mutationStoreCreatorFactory ''todos.addTodo''
       \<lparr>mopt_enabled = None, mopt_refetchStores = None\<rparr>"
  have q: "enabled (state ?wq)"
    by (simp add: queryStoreCreatorFactory_def)
  have m: "enabled (state ?wm)"
    by (simp add: mutationStoreCreatorFactory_def)
  have iq: "issued ?wq = 0"
    by (simp add: queryStoreCreatorFactory_def)
  have im: "issued ?wm = 0"
    by (simp add: mutationStoreCreatorFactory_def)
  have q2: "state (query_run (QQuery (Num 1) Undefined # []) ?wq) =
      \<lparr>enabled = True, input = Num 1, data = Undefined, error = Undefined,
        loading = True, keepPreviousData = True\<rparr>
      \<and> issued (query_run (QQuery (Num 1) Undefined # []) ?wq) = 1"
    by (simp add: query_run_def queryStoreCreatorFactory_def query_def call_stop_def
          set_op_def Let_def)
  have m2: "state (mutation_run (MMutate (Num 1) Undefined # []) ?wm) =
      \<lparr>enabled = True, input = Num 1, data = Undefined, error = Undefined,
        loading = True\<rparr>
      \<and> issued (mutation_run (MMutate (Num 1) Undefined # []) ?wm) = 1
      \<and> refetchStores (mutation_run (MMutate (Num 1) Undefined # []) ?wm) = None"
    by (simp add: mutation_run_def mutationStoreCreatorFactory_def mutate_def call_stop_def
          set_op_def Let_def)
  show ?thesis
    using q m q2 m2
      superseded_call_never_sets [OF q m, of "Num 1" Undefined "[]" "Num 2" Undefined "[]"
        "Resolve (Str ''a'')" "Str ''b''" "Str ''e''"
        "Num 1" Undefined "[]" "Num 2" Undefined "[]"]
    by (simp add: Let_def iq im refetch_all_def)
qed

subsection \<open>Reset\<close>

lemma in_flight_ok_query_step: "in_flight_ok w \<Longrightarrow> in_flight_ok (query_step e w)"
  by (cases e)
     (auto simp: in_flight_ok_def op_defs query_def refetch_def query_settle_def
           split: option.splits outcome.splits)

lemma in_flight_ok_mutation_step: "in_flight_ok w \<Longrightarrow> in_flight_ok (mutation_step e w)"
  by (cases e)
     (auto simp: in_flight_ok_def op_defs mutate_def mutation_settle_frame
           split: option.splits)

lemma in_flight_ok_query_run: "in_flight_ok w \<Longrightarrow> in_flight_ok (query_run es w)"
  unfolding query_run_def
  by (induction es arbitrary: w) (simp_all add: in_flight_ok_query_step)

lemma in_flight_ok_mutation_run: "in_flight_ok w \<Longrightarrow> in_flight_ok (mutation_run es w)"
  unfolding mutation_run_def
  by (induction es arbitrary: w) (simp_all add: in_flight_ok_mutation_step)

lemma in_flight_ok_init:
  "in_flight_ok (queryStoreCreatorFactory p qopts)"
  "in_flight_ok (mutationStoreCreatorFactory p mopts)"
  by (simp_all add: in_flight_ok_def queryStoreCreatorFactory_def
        mutationStoreCreatorFactory_def)

lemma reset_stops_all:
  assumes "in_flight_ok w" and "c \<in> set (pending (reset w))"
  shows "stopped (reset w) c"
  using assms by (auto simp: in_flight_ok_def op_defs split: option.splits)

lemma reset_state:
  "state (reset w) =
     (state w)\<lparr>input := Undefined, loading := False, data := Undefined, error := Undefined\<rparr>"
  by (simp add: op_defs split: option.splits)

lemma query_settle_stopped:
  "(c \<in> set (pending w) \<Longrightarrow> stopped w c) \<Longrightarrow>
     state (query_settle c out w) = state w \<and> trace (query_settle c out w) = trace w"
  by (auto simp: query_settle_def Let_def split: outcome.splits)

lemma mutation_settle_stopped:
  "(c \<in> set (pending w) \<Longrightarrow> stopped w c) \<Longrightarrow>
     state (mutation_settle c out w) = state w \<and> trace (mutation_settle c out w) = trace w"
  by (auto simp: mutation_settle_def mutate_catch_def Let_def split: outcome.splits)

lemma uol_step: "unsubscribed_or_latest w \<Longrightarrow> unsubscribed_or_latest (subscription_step e w)"
  by (cases e)
     (auto simp: unsubscribed_or_latest_def sub_defs subscribe_def cancel_def onStarted_def
        onData_def onError_def onConnectionStateChange_def less_Suc_eq
        split: option.splits)

lemma uol_run: "unsubscribed_or_latest w \<Longrightarrow> unsubscribed_or_latest (subscription_run es w)"
  unfolding subscription_run_def
  by (induction es arbitrary: w) (simp_all add: uol_step)

lemma uol_init: "unsubscribed_or_latest (subscriptionStoreCreatorFactory p sopts)"
  by (simp add: unsubscribed_or_latest_def subscriptionStoreCreatorFactory_def)

lemma sub_reset_facts:
  "state (sub_reset w) =
     (state w)\<lparr>input := Undefined, data := Undefined, error := Undefined, status := ''idle''\<rparr>"
  "trace (sub_reset w) =
     trace w @ (case stop w of None \<Rightarrow> [] | Some k \<Rightarrow> [Unsubscribe k])
       @ [Set sub_initialState]"
  "issued (sub_reset w) = issued w"
  by (simp_all add: sub_reset_def set_sub_def sub_call_stop_def sub_initialState_def
        split: option.splits)

lemma sub_reset_unsubscribes_all:
  assumes "unsubscribed_or_latest w" and "k < issued (sub_reset w)"
  shows "Unsubscribe k \<in> set (trace (sub_reset w))"
  using assms
  by (auto simp: unsubscribed_or_latest_def sub_reset_facts split: option.splits)

text \<open>
  C6. In every state that a store reaches from its creation, \<^verbatim>\<open>reset()\<close> sets
  \<^verbatim>\<open>input\<close>, \<^verbatim>\<open>data\<close> and \<^verbatim>\<open>error\<close> to \<^verbatim>\<open>undefined\<close> and \<^verbatim>\<open>loading\<close> to false
  (\<^verbatim>\<open>status\<close> to \<^verbatim>\<open>"idle"\<close> in a subscription store) and leaves \<^verbatim>\<open>enabled\<close> as it
  was. In a query or mutation store no remote call that settles afterwards changes the
  state or calls \<^verbatim>\<open>set\<close>. In a subscription store \<^verbatim>\<open>reset()\<close> calls the
  \<^verbatim>\<open>unsubscribe\<close> of the latest subscription, and then every subscription that was
  opened has had its \<^verbatim>\<open>unsubscribe\<close> called.
\<close>

theorem reset_restores_initial_fields:
  "(let w = query_run qes (queryStoreCreatorFactory pq qopts); w' = reset w
    in state w' = (state w)\<lparr>input := Undefined, loading := False, data := Undefined,
                            error := Undefined\<rparr>
     \<and> enabled (state w') = enabled (state w)
     \<and> (\<forall>c out. state (query_settle c out w') = state w'
                \<and> trace (query_settle c out w') = trace w'))
   \<and> (let w = mutation_run mes (mutationStoreCreatorFactory pm mopts); w' = reset w
    in state w' = (state w)\<lparr>input := Undefined, loading := False, data := Undefined,
                            error := Undefined\<rparr>
     \<and> enabled (state w') = enabled (state w)
     \<and> (\<forall>c out. state (mutation_settle c out w') = state w'
                \<and> trace (mutation_settle c out w') = trace w'))
   \<and> (let w = subscription_run ses (subscriptionStoreCreatorFactory ps sopts);
          w' = sub_reset w
    in state w' = (state w)\<lparr>input := Undefined, data := Undefined, error := Undefined,
                            status := ''idle''\<rparr>
     \<and> enabled (state w') = enabled (state w)
     \<and> trace w' = trace w @ (case stop w of None \<Rightarrow> [] | Some k \<Rightarrow> [Unsubscribe k])
                    @ [Set sub_initialState]
     \<and> (\<forall>k. k < issued w' \<longrightarrow> Unsubscribe k \<in> set (trace w')))"
proof -
  let ?wq = "query_run qes (queryStoreCreatorFactory pq qopts)"
  let ?wm = "mutation_run mes (mutationStoreCreatorFactory pm mopts)"
  let ?ws = "subscription_run ses (subscriptionStoreCreatorFactory ps sopts)"
  have q: "in_flight_ok ?wq"
    by (simp add: in_flight_ok_query_run in_flight_ok_init)
  have m: "in_flight_ok ?wm"
    by (simp add: in_flight_ok_mutation_run in_flight_ok_init)
  have s: "unsubscribed_or_latest ?ws"
    by (simp add: uol_run uol_init)
  have q': "\<forall>c out. state (query_settle c out (reset ?wq)) = state (reset ?wq)
                \<and> trace (query_settle c out (reset ?wq)) = trace (reset ?wq)"
    using reset_stops_all [OF q] by (simp add: query_settle_stopped)
  have m': "\<forall>c out. state (mutation_settle c out (reset ?wm)) = state (reset ?wm)
                \<and> trace (mutation_settle c out (reset ?wm)) = trace (reset ?wm)"
    using reset_stops_all [OF m] by (simp add: mutation_settle_stopped)
  have s': "\<forall>k. k < issued (sub_reset ?ws) \<longrightarrow> Unsubscribe k \<in> set (trace (sub_reset ?ws))"
    using sub_reset_unsubscribes_all [OF s] by blast
  show ?thesis
    unfolding Let_def
    using q' m' s' by (simp add: reset_state sub_reset_facts)
qed

theorem reset_restores_initial_fields_witness:
  "0 < issued (sub_reset (subscription_run
        [SSubscribe (Num 1) \<lparr>cb_onStarted = False, cb_onData = False, cb_onError = False\<rparr>
           Undefined, TData 0 (Str ''v1'')]
        (subscriptionStoreCreatorFactory ''todos.streamTodos'' \<lparr>sopt_enabled = None\<rparr>)))
   \<and> Unsubscribe 0 \<in> set (trace (sub_reset (subscription_run
        [SSubscribe (Num 1) \<lparr>cb_onStarted = False, cb_onData = False, cb_onError = False\<rparr>
           Undefined, TData 0 (Str ''v1'')]
        (subscriptionStoreCreatorFactory ''todos.streamTodos'' \<lparr>sopt_enabled = None\<rparr>))))
   \<and> state (sub_reset (subscription_run
        [SSubscribe (Num 1) \<lparr>cb_onStarted = False, cb_onData = False, cb_onError = False\<rparr>
           Undefined, TData 0 (Str ''v1'')]
        (subscriptionStoreCreatorFactory ''todos.streamTodos'' \<lparr>sopt_enabled = None\<rparr>)))
     = \<lparr>enabled = True, input = Undefined, data = Undefined, error = Undefined,
        status = ''idle''\<rparr>
   \<and> state (query_settle 0 (Resolve (Str ''late''))
        (reset (query_run [QQuery (Num 1) Undefined]
          (queryStoreCreatorFactory ''todos.getTodos''
             \<lparr>opt_enabled = None, opt_keepPreviousData = None\<rparr>))))
     = \<lparr>enabled = True, input = Undefined, data = Undefined, error = Undefined,
        loading = False, keepPreviousData = True\<rparr>
   \<and> state (mutation_settle 0 (Reject (Str ''late''))
        (reset (mutation_run [MMutate (Num 1) Undefined]
          (mutationStoreCreatorFactory ''todos.addTodo''
             \<lparr>mopt_enabled = None, mopt_refetchStores = None\<rparr>))))
     = \<lparr>enabled = True, input = Undefined, data = Undefined, error = Undefined,
        loading = False\<rparr>"
proof -
  let ?ws = "subscription_run
        [SSubscribe (Num 1) \<lparr>cb_onStarted = False, cb_onData = False, cb_onError = False\<rparr>
           Undefined, TData 0 (Str ''v1'')]
        (subscriptionStoreCreatorFactory ''todos.streamTodos'' \<lparr>sopt_enabled = None\<rparr>)"
  let ?wq = "query_run [QQuery (Num 1) Undefined]
          (queryStoreCreatorFactory ''todos.getTodos''
             \<lparr>opt_enabled = None, opt_keepPreviousData = None\<rparr>)"
  let ?wm = "mutation_run [MMutate (Num 1) Undefined]
          (mutationStoreCreatorFactory ''todos.addTodo''
             \<lparr>mopt_enabled = None, mopt_refetchStores = None\<rparr>)"
  have s: "state ?ws = \<lparr>enabled = True, input = Num 1, data = Str ''v1'', error = Undefined,
        status = ''pending''\<rparr> \<and> issued ?ws = 1"
    by (simp add: subscription_run_def subscriptionStoreCreatorFactory_def subscribe_def
          onData_def sub_defs)
  have q: "state ?wq = \<lparr>enabled = True, input = Num 1, data = Undefined, error = Undefined,
        loading = True, keepPreviousData = True\<rparr>"
    by (simp add: query_run_def queryStoreCreatorFactory_def query_def op_defs)
  have m: "state ?wm = \<lparr>enabled = True, input = Num 1, data = Undefined, error = Undefined,
        loading = True\<rparr>"
    by (simp add: mutation_run_def mutationStoreCreatorFactory_def mutate_def op_defs)
  have i: "0 < issued (sub_reset ?ws)"
    using s by (simp add: sub_defs split: option.splits)
  note T = reset_restores_initial_fields [of "[QQuery (Num 1) Undefined]" "''todos.getTodos''"
        "\<lparr>opt_enabled = None, opt_keepPreviousData = None\<rparr>"
        "[MMutate (Num 1) Undefined]" "''todos.addTodo''"
        "\<lparr>mopt_enabled = None, mopt_refetchStores = None\<rparr>"
        "[SSubscribe (Num 1) \<lparr>cb_onStarted = False, cb_onData = False, cb_onError = False\<rparr>
           Undefined, TData 0 (Str ''v1'')]" "''todos.streamTodos''"
        "\<lparr>sopt_enabled = None\<rparr>", unfolded Let_def]
  have u: "Unsubscribe 0 \<in> set (trace (sub_reset ?ws))"
    using T i by blast
  have st: "state (sub_reset ?ws) =
      (state ?ws)\<lparr>input := Undefined, data := Undefined, error := Undefined,
                   status := ''idle''\<rparr>"
    using T by blast
  have qs: "state (query_settle 0 (Resolve (Str ''late'')) (reset ?wq)) = state (reset ?wq)"
    using T by blast
  have qr: "state (reset ?wq) =
      (state ?wq)\<lparr>input := Undefined, loading := False, data := Undefined,
                   error := Undefined\<rparr>"
    using T by blast
  have ms: "state (mutation_settle 0 (Reject (Str ''late'')) (reset ?wm)) = state (reset ?wm)"
    using T by blast
  have mr: "state (reset ?wm) =
      (state ?wm)\<lparr>input := Undefined, loading := False, data := Undefined,
                   error := Undefined\<rparr>"
    using T by blast
  show ?thesis
    using i u by (simp add: st qs qr ms mr s q m)
qed

subsection \<open>Refetching after a mutation\<close>

lemma refetch_calls_append:
  "refetch_calls (xs @ ys) = refetch_calls xs @ refetch_calls ys"
  by (induction xs rule: refetch_calls.induct) simp_all

lemma refetch_calls_stores:
  "refetch_calls (map (\<lambda>s. Refetch (store_id s)) stores) = map store_id stores"
  by (induction stores) simp_all

lemma set_calls_append: "set_calls (xs @ ys) = set_calls xs @ set_calls ys"
  by (induction xs rule: set_calls.induct) simp_all

lemma refetch_each_returns:
  "\<forall>s \<in> set stores. refetch_throws s = None \<Longrightarrow>
     refetch_each stores = (map (\<lambda>s. Refetch (store_id s)) stores, None)"
  by (induction stores rule: refetch_each.induct) simp_all

lemma count_list_distinct:
  "distinct xs \<Longrightarrow> count_list xs x = (if x \<in> set xs then 1 else 0)"
  by (induction xs) auto

text \<open>
  The claim C3 as it is written fails twice. \<^verbatim>\<open>refetchStores\<close> returns the same store
  twice: \<^verbatim>\<open>mutate\<close> resolves and that store's \<^verbatim>\<open>refetch\<close> is invoked twice, not once.
  The \<^verbatim>\<open>refetch\<close> of the second of two stores throws: \<^verbatim>\<open>mutate\<close> rejects although
  the remote call resolved, after \<^verbatim>\<open>refetch\<close> was invoked on both stores.
\<close>

theorem refetch_twice_or_rejected_counterexample:
  "settled (mutation_settle 0 (Resolve (Str ''ok''))
      (snd (mutate (Num 1) Undefined
        (mutationStoreCreatorFactory ''todos.addTodo''
           \<lparr>mopt_enabled = None,
            mopt_refetchStores =
              Some (returning (Some [StoreApi 7 None, StoreApi 7 None]))\<rparr>)))) 0
     = Some (Resolved (Str ''ok''))
   \<and> count_list (refetch_calls (trace (mutation_settle 0 (Resolve (Str ''ok''))
      (snd (mutate (Num 1) Undefined
        (mutationStoreCreatorFactory ''todos.addTodo''
           \<lparr>mopt_enabled = None,
            mopt_refetchStores =
              Some (returning (Some [StoreApi 7 None, StoreApi 7 None]))\<rparr>)))))) 7
     = 2
   \<and> settled (mutation_settle 0 (Resolve (Str ''ok''))
      (snd (mutate (Num 1) Undefined
        (mutationStoreCreatorFactory ''todos.addTodo''
           \<lparr>mopt_enabled = None,
            mopt_refetchStores =
              Some (returning
                (Some [StoreApi 7 None, StoreApi 8 (Some (ErrorObj ''boom''))]))\<rparr>)))) 0
     = Some (Rejected (ErrorObj ''boom''))
   \<and> refetch_calls (trace (mutation_settle 0 (Resolve (Str ''ok''))
      (snd (mutate (Num 1) Undefined
        (mutationStoreCreatorFactory ''todos.addTodo''
           \<lparr>mopt_enabled = None,
            mopt_refetchStores =
              Some (returning
                (Some [StoreApi 7 None, StoreApi 8 (Some (ErrorObj ''boom''))]))\<rparr>)))))
     = [7, 8]"
  by (simp add: mutation_settle_def mutate_catch_def mutate_def mutationStoreCreatorFactory_def
        refetch_all_def returning_def op_defs)

text \<open>
  C3, amended. The remote call of \<^verbatim>\<open>mutate\<close> number \<open>c\<close> is pending and not
  superseded, \<^verbatim>\<open>refetchStores()\<close> returns the array \<open>stores\<close>, and no \<^verbatim>\<open>refetch\<close> of
  these stores throws. When the remote call resolves, the store calls \<^verbatim>\<open>set\<close> and then
  \<^verbatim>\<open>refetch\<close> once for every element of \<open>stores\<close>, in order, so exactly once on every
  store when no store is in the array twice; the promise that \<^verbatim>\<open>mutate\<close> returned is
  resolved with the result in the same step: it waits for none of the refetches. When the
  remote call rejects, the store calls \<^verbatim>\<open>set\<close> only, and the promise is rejected. A
  superseded call that settles, and \<^verbatim>\<open>mutate\<close> on a disabled store, add nothing to the
  trace, so no \<^verbatim>\<open>refetch\<close> either.
\<close>

theorem successful_mutation_refetches_returned_stores:
  assumes "c \<in> set (pending w)" and "\<not> stopped w c"
    and "refetchStores w = Some f" and "f () = Inr (Some stores)"
    and "\<forall>s \<in> set stores. refetch_throws s = None"
  shows "trace (mutation_settle c (Resolve r) w) =
           trace w @ Set [Loading False, Data r] # map (\<lambda>s. Refetch (store_id s)) stores
       \<and> refetch_calls (trace (mutation_settle c (Resolve r) w)) =
           refetch_calls (trace w) @ map store_id stores
       \<and> (distinct (map store_id stores) \<longrightarrow>
            (\<forall>s \<in> set stores.
               count_list (refetch_calls (trace (mutation_settle c (Resolve r) w)))
                 (store_id s)
               = count_list (refetch_calls (trace w)) (store_id s) + 1))
       \<and> settled (mutation_settle c (Resolve r) w) c = Some (Resolved r)
       \<and> trace (mutation_settle c (Reject e) w) = trace w @ [Set [Loading False, Error e]]
       \<and> refetch_calls (trace (mutation_settle c (Reject e) w)) = refetch_calls (trace w)
       \<and> settled (mutation_settle c (Reject e) w) c = Some (Rejected e)
       \<and> (stopped w d \<longrightarrow> trace (mutation_settle d out w) = trace w)
       \<and> (\<not> enabled (state w') \<longrightarrow> trace (snd (mutate inp opts w')) = trace w')"
proof -
  have ra: "refetch_all (refetchStores w) = (map (\<lambda>s. Refetch (store_id s)) stores, None)"
    using assms(3,4,5) by (simp add: refetch_all_def refetch_each_returns)
  have t1: "trace (mutation_settle c (Resolve r) w) =
           trace w @ Set [Loading False, Data r] # map (\<lambda>s. Refetch (store_id s)) stores"
    using assms(1,2) ra by (simp add: mutation_settle_def set_op_def Let_def)
  have t2: "trace (mutation_settle c (Reject e) w) = trace w @ [Set [Loading False, Error e]]"
    using assms(1,2) by (simp add: mutation_settle_def mutate_catch_def set_op_def Let_def)
  have s1: "settled (mutation_settle c (Resolve r) w) c = Some (Resolved r)"
    using assms(1,2) ra by (simp add: mutation_settle_def set_op_def Let_def)
  have s2: "settled (mutation_settle c (Reject e) w) c = Some (Rejected e)"
    using assms(1,2) by (simp add: mutation_settle_def mutate_catch_def set_op_def Let_def)
  have r1: "refetch_calls (trace (mutation_settle c (Resolve r) w)) =
           refetch_calls (trace w) @ map store_id stores"
    by (simp add: t1 refetch_calls_append refetch_calls_stores)
  have r2: "refetch_calls (trace (mutation_settle c (Reject e) w)) = refetch_calls (trace w)"
    by (simp add: t2 refetch_calls_append)
  have o: "distinct (map store_id stores) \<longrightarrow>
            (\<forall>s \<in> set stores.
               count_list (refetch_calls (trace (mutation_settle c (Resolve r) w)))
                 (store_id s)
               = count_list (refetch_calls (trace w)) (store_id s) + 1)"
    by (simp add: r1 count_list_distinct)
  have d: "stopped w d \<longrightarrow> trace (mutation_settle d out w) = trace w"
    by (auto simp: mutation_settle_def mutate_catch_def Let_def split: outcome.splits)
  have m: "\<not> enabled (state w') \<longrightarrow> trace (snd (mutate inp opts w')) = trace w'"
    by (simp add: mutate_def)
  show ?thesis
    using t1 t2 s1 s2 r1 r2 o d m by blast
qed

theorem successful_mutation_refetches_returned_stores_witness:
  "1 \<in> set (pending (mutation_run [MMutate (Num 1) Undefined, MMutate (Num 2) Undefined]
        (mutationStoreCreatorFactory ''todos.addTodo''
           \<lparr>mopt_enabled = None,
            mopt_refetchStores =
              Some (returning (Some [StoreApi 7 None, StoreApi 8 None]))\<rparr>)))
   \<and> \<not> stopped (mutation_run [MMutate (Num 1) Undefined, MMutate (Num 2) Undefined]
        (mutationStoreCreatorFactory ''todos.addTodo''
           \<lparr>mopt_enabled = None,
            mopt_refetchStores =
              Some (returning (Some [StoreApi 7 None, StoreApi 8 None]))\<rparr>)) 1
   \<and> stopped (mutation_run [MMutate (Num 1) Undefined, MMutate (Num 2) Undefined]
        (mutationStoreCreatorFactory ''todos.addTodo''
           \<lparr>mopt_enabled = None,
            mopt_refetchStores =
              Some (returning (Some [StoreApi 7 None, StoreApi 8 None]))\<rparr>)) 0
   \<and> refetchStores (mutation_run [MMutate (Num 1) Undefined, MMutate (Num 2) Undefined]
        (mutationStoreCreatorFactory ''todos.addTodo''
           \<lparr>mopt_enabled = None,
            mopt_refetchStores =
              Some (returning (Some [StoreApi 7 None, StoreApi 8 None]))\<rparr>)) = Some (returning (Some [StoreApi 7 None, StoreApi 8 None]))
   \<and> returning (Some [StoreApi 7 None, StoreApi 8 None]) () =
       Inr (Some [StoreApi 7 None, StoreApi 8 None])
   \<and> refetch_throws (StoreApi 7 None) = None
   \<and> refetch_throws (StoreApi 8 None) = None
   \<and> distinct (map store_id [StoreApi 7 None, StoreApi 8 None])
   \<and> \<not> enabled (state (mutationStoreCreatorFactory ''todos.addTodo'' \<lparr>mopt_enabled = Some False, mopt_refetchStores = None\<rparr>))
   \<and> refetch_calls (trace (mutation_settle 1 (Resolve (Str ''ok'')) (mutation_run [MMutate (Num 1) Undefined, MMutate (Num 2) Undefined]
        (mutationStoreCreatorFactory ''todos.addTodo''
           \<lparr>mopt_enabled = None,
            mopt_refetchStores =
              Some (returning (Some [StoreApi 7 None, StoreApi 8 None]))\<rparr>)))) = [7, 8]
   \<and> settled (mutation_settle 1 (Resolve (Str ''ok'')) (mutation_run [MMutate (Num 1) Undefined, MMutate (Num 2) Undefined]
        (mutationStoreCreatorFactory ''todos.addTodo''
           \<lparr>mopt_enabled = None,
            mopt_refetchStores =
              Some (returning (Some [StoreApi 7 None, StoreApi 8 None]))\<rparr>))) 1 = Some (Resolved (Str ''ok''))
   \<and> refetch_calls (trace (mutation_settle 1 (Reject (Str ''no'')) (mutation_run [MMutate (Num 1) Undefined, MMutate (Num 2) Undefined]
        (mutationStoreCreatorFactory ''todos.addTodo''
           \<lparr>mopt_enabled = None,
            mopt_refetchStores =
              Some (returning (Some [StoreApi 7 None, StoreApi 8 None]))\<rparr>)))) = []
   \<and> trace (mutation_settle 0 (Resolve (Str ''late'')) (mutation_run [MMutate (Num 1) Undefined, MMutate (Num 2) Undefined]
        (mutationStoreCreatorFactory ''todos.addTodo''
           \<lparr>mopt_enabled = None,
            mopt_refetchStores =
              Some (returning (Some [StoreApi 7 None, StoreApi 8 None]))\<rparr>))) = trace (mutation_run [MMutate (Num 1) Undefined, MMutate (Num 2) Undefined]
        (mutationStoreCreatorFactory ''todos.addTodo''
           \<lparr>mopt_enabled = None,
            mopt_refetchStores =
              Some (returning (Some [StoreApi 7 None, StoreApi 8 None]))\<rparr>))"
proof -
  have p: "1 \<in> set (pending (mutation_run [MMutate (Num 1) Undefined, MMutate (Num 2) Undefined]
        (mutationStoreCreatorFactory ''todos.addTodo''
           \<lparr>mopt_enabled = None,
            mopt_refetchStores =
              Some (returning (Some [StoreApi 7 None, StoreApi 8 None]))\<rparr>)))"
    by (simp add: mutation_run_def mutate_def mutationStoreCreatorFactory_def op_defs)
  have n: "\<not> stopped (mutation_run [MMutate (Num 1) Undefined, MMutate (Num 2) Undefined]
        (mutationStoreCreatorFactory ''todos.addTodo''
           \<lparr>mopt_enabled = None,
            mopt_refetchStores =
              Some (returning (Some [StoreApi 7 None, StoreApi 8 None]))\<rparr>)) 1"
    by (simp add: mutation_run_def mutate_def mutationStoreCreatorFactory_def op_defs)
  have z: "stopped (mutation_run [MMutate (Num 1) Undefined, MMutate (Num 2) Undefined]
        (mutationStoreCreatorFactory ''todos.addTodo''
           \<lparr>mopt_enabled = None,
            mopt_refetchStores =
              Some (returning (Some [StoreApi 7 None, StoreApi 8 None]))\<rparr>)) 0"
    by (simp add: mutation_run_def mutate_def mutationStoreCreatorFactory_def op_defs)
  have f: "refetchStores (mutation_run [MMutate (Num 1) Undefined, MMutate (Num 2) Undefined]
        (mutationStoreCreatorFactory ''todos.addTodo''
           \<lparr>mopt_enabled = None,
            mopt_refetchStores =
              Some (returning (Some [StoreApi 7 None, StoreApi 8 None]))\<rparr>)) = Some (returning (Some [StoreApi 7 None, StoreApi 8 None]))"
    by (simp add: mutation_run_def mutate_def mutationStoreCreatorFactory_def op_defs)
  have g: "returning (Some [StoreApi 7 None, StoreApi 8 None]) () =
       Inr (Some [StoreApi 7 None, StoreApi 8 None])"
    by (simp add: returning_def)
  have a: "\<forall>s \<in> set [StoreApi 7 None, StoreApi 8 None]. refetch_throws s = None"
    by simp
  have t: "refetch_calls (trace (mutation_run [MMutate (Num 1) Undefined, MMutate (Num 2) Undefined]
        (mutationStoreCreatorFactory ''todos.addTodo''
           \<lparr>mopt_enabled = None,
            mopt_refetchStores =
              Some (returning (Some [StoreApi 7 None, StoreApi 8 None]))\<rparr>))) = []"
    by (simp add: mutation_run_def mutate_def mutationStoreCreatorFactory_def op_defs)
  have e: "\<not> enabled (state (mutationStoreCreatorFactory ''todos.addTodo'' \<lparr>mopt_enabled = Some False, mopt_refetchStores = None\<rparr>))"
    by (simp add: mutationStoreCreatorFactory_def)
  note T = successful_mutation_refetches_returned_stores [OF p n f g a,
      of "Str ''ok''" "Str ''no''" 0 "Resolve (Str ''late'')"]
  have r1: "refetch_calls (trace (mutation_settle 1 (Resolve (Str ''ok'')) (mutation_run [MMutate (Num 1) Undefined, MMutate (Num 2) Undefined]
        (mutationStoreCreatorFactory ''todos.addTodo''
           \<lparr>mopt_enabled = None,
            mopt_refetchStores =
              Some (returning (Some [StoreApi 7 None, StoreApi 8 None]))\<rparr>)))) =
      refetch_calls (trace (mutation_run [MMutate (Num 1) Undefined, MMutate (Num 2) Undefined]
        (mutationStoreCreatorFactory ''todos.addTodo''
           \<lparr>mopt_enabled = None,
            mopt_refetchStores =
              Some (returning (Some [StoreApi 7 None, StoreApi 8 None]))\<rparr>))) @ map store_id [StoreApi 7 None, StoreApi 8 None]"
    using T by blast
  have s1: "settled (mutation_settle 1 (Resolve (Str ''ok'')) (mutation_run [MMutate (Num 1) Undefined, MMutate (Num 2) Undefined]
        (mutationStoreCreatorFactory ''todos.addTodo''
           \<lparr>mopt_enabled = None,
            mopt_refetchStores =
              Some (returning (Some [StoreApi 7 None, StoreApi 8 None]))\<rparr>))) 1
      = Some (Resolved (Str ''ok''))"
    using T by blast
  have r2: "refetch_calls (trace (mutation_settle 1 (Reject (Str ''no'')) (mutation_run [MMutate (Num 1) Undefined, MMutate (Num 2) Undefined]
        (mutationStoreCreatorFactory ''todos.addTodo''
           \<lparr>mopt_enabled = None,
            mopt_refetchStores =
              Some (returning (Some [StoreApi 7 None, StoreApi 8 None]))\<rparr>)))) =
      refetch_calls (trace (mutation_run [MMutate (Num 1) Undefined, MMutate (Num 2) Undefined]
        (mutationStoreCreatorFactory ''todos.addTodo''
           \<lparr>mopt_enabled = None,
            mopt_refetchStores =
              Some (returning (Some [StoreApi 7 None, StoreApi 8 None]))\<rparr>)))"
    using T by blast
  have d: "trace (mutation_settle 0 (Resolve (Str ''late'')) (mutation_run [MMutate (Num 1) Undefined, MMutate (Num 2) Undefined]
        (mutationStoreCreatorFactory ''todos.addTodo''
           \<lparr>mopt_enabled = None,
            mopt_refetchStores =
              Some (returning (Some [StoreApi 7 None, StoreApi 8 None]))\<rparr>))) = trace (mutation_run [MMutate (Num 1) Undefined, MMutate (Num 2) Undefined]
        (mutationStoreCreatorFactory ''todos.addTodo''
           \<lparr>mopt_enabled = None,
            mopt_refetchStores =
              Some (returning (Some [StoreApi 7 None, StoreApi 8 None]))\<rparr>))"
    using T z by blast
  show ?thesis
    using p n z f g e s1 d r1 r2 t by simp
qed

lemma subscribe_opens:
  assumes "enabled (state w)"
  shows "fst (subscribe inp cbs opts w) = Inr (issued w)"
    and "handlers (snd (subscribe inp cbs opts w)) (issued w) = Some cbs"
  using assms by (simp_all add: subscribe_def sub_defs split: option.splits)

subsection \<open>The subscription store\<close>

text \<open>
  C5. When the transport calls the \<^verbatim>\<open>onError\<close> handler of a subscription that
  \<^verbatim>\<open>subscribe\<close> opened, \<^verbatim>\<open>status\<close> becomes \<^verbatim>\<open>"error"\<close>, the error is stored in
  \<^verbatim>\<open>error\<close>, and nothing else of the state changes: \<^verbatim>\<open>data\<close> is what it was. The
  caller's \<^verbatim>\<open>onError\<close>, when there is one, is called after \<^verbatim>\<open>set\<close>.
\<close>

theorem transport_error_keeps_data:
  assumes "handlers w k = Some cbs"
  shows "state (onError k err w) = (state w)\<lparr>error := err, status := ''error''\<rparr>
       \<and> data (state (onError k err w)) = data (state w)
       \<and> trace (onError k err w) =
           trace w @ Set [Status ''error'', Error err]
             # (if cb_onError cbs then [CallOnError k err] else [])"
  using assms by (simp add: onError_def set_sub_def Let_def)

theorem transport_error_keeps_data_witness:
  "handlers (subscription_run [SSubscribe (Num 1) \<lparr>cb_onStarted = False, cb_onData = False, cb_onError = True\<rparr> Undefined, TData 0 (Str ''v1''), TData 0 (Str ''v2'')] (subscriptionStoreCreatorFactory ''todos.streamTodos'' \<lparr>sopt_enabled = None\<rparr>)) 0 = Some \<lparr>cb_onStarted = False, cb_onData = False, cb_onError = True\<rparr>
   \<and> state (onError 0 (Str ''boom'') (subscription_run [SSubscribe (Num 1) \<lparr>cb_onStarted = False, cb_onData = False, cb_onError = True\<rparr> Undefined, TData 0 (Str ''v1''), TData 0 (Str ''v2'')] (subscriptionStoreCreatorFactory ''todos.streamTodos'' \<lparr>sopt_enabled = None\<rparr>))) =
       \<lparr>enabled = True, input = Num 1, data = Str ''v2'', error = Str ''boom'',
        status = ''error''\<rparr>
   \<and> trace (onError 0 (Str ''boom'') (subscription_run [SSubscribe (Num 1) \<lparr>cb_onStarted = False, cb_onData = False, cb_onError = True\<rparr> Undefined, TData 0 (Str ''v1''), TData 0 (Str ''v2'')] (subscriptionStoreCreatorFactory ''todos.streamTodos'' \<lparr>sopt_enabled = None\<rparr>))) =
       trace (subscription_run [SSubscribe (Num 1) \<lparr>cb_onStarted = False, cb_onData = False, cb_onError = True\<rparr> Undefined, TData 0 (Str ''v1''), TData 0 (Str ''v2'')] (subscriptionStoreCreatorFactory ''todos.streamTodos'' \<lparr>sopt_enabled = None\<rparr>)) @ [Set [Status ''error'', Error (Str ''boom'')], CallOnError 0 (Str ''boom'')]"
proof -
  have h: "handlers (subscription_run [SSubscribe (Num 1) \<lparr>cb_onStarted = False, cb_onData = False, cb_onError = True\<rparr> Undefined, TData 0 (Str ''v1''), TData 0 (Str ''v2'')] (subscriptionStoreCreatorFactory ''todos.streamTodos'' \<lparr>sopt_enabled = None\<rparr>)) 0 = Some \<lparr>cb_onStarted = False, cb_onData = False, cb_onError = True\<rparr>"
    by (simp add: subscription_run_def subscriptionStoreCreatorFactory_def subscribe_def onData_def onStarted_def sub_defs)
  have s: "state (subscription_run [SSubscribe (Num 1) \<lparr>cb_onStarted = False, cb_onData = False, cb_onError = True\<rparr> Undefined, TData 0 (Str ''v1''), TData 0 (Str ''v2'')] (subscriptionStoreCreatorFactory ''todos.streamTodos'' \<lparr>sopt_enabled = None\<rparr>)) = \<lparr>enabled = True, input = Num 1, data = Str ''v2'', error = Undefined,
        status = ''pending''\<rparr>"
    by (simp add: subscription_run_def subscriptionStoreCreatorFactory_def subscribe_def onData_def onStarted_def sub_defs)
  show ?thesis
    using h transport_error_keeps_data [OF h, of "Str ''boom''"]
    by (simp add: s)
qed

text \<open>
  C7. When the transport calls \<^verbatim>\<open>onConnectionStateChange\<close> of a subscription that
  \<^verbatim>\<open>subscribe\<close> opened, \<^verbatim>\<open>status\<close> becomes the reported label, whatever string it
  is, and \<^verbatim>\<open>error\<close> becomes the reported error, or \<^verbatim>\<open>undefined\<close> when that is
  \<^verbatim>\<open>null\<close> or \<^verbatim>\<open>undefined\<close>.
\<close>

theorem connection_state_is_mirrored:
  assumes "handlers w k = Some cbs"
  shows "status (state (onConnectionStateChange k label err w)) = label
       \<and> error (state (onConnectionStateChange k label err w)) =
           (if err = Null \<or> err = Undefined then Undefined else err)
       \<and> state (onConnectionStateChange k label err w) =
           (state w)\<lparr>error := (if err = Null \<or> err = Undefined then Undefined else err),
                      status := label\<rparr>
       \<and> trace (onConnectionStateChange k label err w) =
           trace w @ [Set [Status label, Error (nullish err Undefined)]]"
  using assms by (simp add: onConnectionStateChange_def set_sub_def nullish_def)

theorem connection_state_is_mirrored_witness:
  "handlers (subscription_run [SSubscribe (Num 1) \<lparr>cb_onStarted = False, cb_onData = False, cb_onError = True\<rparr> Undefined] (subscriptionStoreCreatorFactory ''todos.streamTodos'' \<lparr>sopt_enabled = None\<rparr>)) 0 = Some \<lparr>cb_onStarted = False, cb_onData = False, cb_onError = True\<rparr>
   \<and> ''reconnecting'' \<notin> {''idle'', ''connecting'', ''pending'', ''error''}
   \<and> state (onConnectionStateChange 0 ''reconnecting'' Null (subscription_run [SSubscribe (Num 1) \<lparr>cb_onStarted = False, cb_onData = False, cb_onError = True\<rparr> Undefined] (subscriptionStoreCreatorFactory ''todos.streamTodos'' \<lparr>sopt_enabled = None\<rparr>))) =
       \<lparr>enabled = True, input = Num 1, data = Undefined, error = Undefined,
        status = ''reconnecting''\<rparr>"
proof -
  have h: "handlers (subscription_run [SSubscribe (Num 1) \<lparr>cb_onStarted = False, cb_onData = False, cb_onError = True\<rparr> Undefined] (subscriptionStoreCreatorFactory ''todos.streamTodos'' \<lparr>sopt_enabled = None\<rparr>)) 0 = Some \<lparr>cb_onStarted = False, cb_onData = False, cb_onError = True\<rparr>"
    by (simp add: subscription_run_def subscriptionStoreCreatorFactory_def subscribe_def onData_def onStarted_def sub_defs)
  have s: "state (subscription_run [SSubscribe (Num 1) \<lparr>cb_onStarted = False, cb_onData = False, cb_onError = True\<rparr> Undefined] (subscriptionStoreCreatorFactory ''todos.streamTodos'' \<lparr>sopt_enabled = None\<rparr>)) = \<lparr>enabled = True, input = Num 1, data = Undefined, error = Undefined,
        status = ''connecting''\<rparr>"
    by (simp add: subscription_run_def subscriptionStoreCreatorFactory_def subscribe_def onData_def onStarted_def sub_defs)
  show ?thesis
    using h connection_state_is_mirrored [OF h, of "''reconnecting''" Null]
    by (simp add: s)
qed

text \<open>
  C9. \<^verbatim>\<open>subscribe\<close> on an enabled store returns the \<^verbatim>\<open>unsubscribe\<close> of the
  subscription it opened. Calling that function calls the transport's \<^verbatim>\<open>unsubscribe\<close>
  and nothing else: the state is the same, and the trace has no new call of \<^verbatim>\<open>set\<close>.
  The other methods that are not \<^verbatim>\<open>disable\<close>, \<^verbatim>\<open>reset\<close> or a \<^verbatim>\<open>subscribe\<close> that
  opens a subscription do not change \<^verbatim>\<open>input\<close>, \<^verbatim>\<open>data\<close>, \<^verbatim>\<open>error\<close> or
  \<^verbatim>\<open>status\<close> either: \<^verbatim>\<open>enable\<close>, \<^verbatim>\<open>toggle\<close> on a disabled store (it calls
  \<^verbatim>\<open>enable\<close>), and \<^verbatim>\<open>subscribe\<close> on a disabled store.
\<close>

theorem cancel_only_unsubscribes:
  assumes "handlers w k = Some cbs"
  shows "state (cancel k w) = state w
       \<and> trace (cancel k w) = trace w @ [Unsubscribe k]
       \<and> set_calls (trace (cancel k w)) = set_calls (trace w)
       \<and> (enabled (state w') \<longrightarrow>
            fst (subscribe inp cbs' opts w') = Inr (issued w')
          \<and> handlers (snd (subscribe inp cbs' opts w')) (issued w') = Some cbs')
       \<and> input (state (sub_enable w)) = input (state w)
       \<and> data (state (sub_enable w)) = data (state w)
       \<and> error (state (sub_enable w)) = error (state w)
       \<and> status (state (sub_enable w)) = status (state w)
       \<and> (\<not> enabled (state w) \<longrightarrow>
            input (state (sub_toggle w)) = input (state w)
          \<and> data (state (sub_toggle w)) = data (state w)
          \<and> error (state (sub_toggle w)) = error (state w)
          \<and> status (state (sub_toggle w)) = status (state w)
          \<and> snd (subscribe inp cbs' opts w) = w)"
proof -
  have d: "\<not> enabled (state w) \<longrightarrow> snd (subscribe inp cbs' opts w) = w"
    by (simp add: subscribe_def)
  show ?thesis
    using assms d
    by (simp add: cancel_def set_calls_append subscribe_opens sub_enable_def sub_toggle_def
          set_sub_def)
qed

theorem cancel_only_unsubscribes_witness:
  "handlers (subscription_run [SSubscribe (Num 1) \<lparr>cb_onStarted = False, cb_onData = False, cb_onError = True\<rparr> Undefined, TStarted 0] (subscriptionStoreCreatorFactory ''todos.streamTodos'' \<lparr>sopt_enabled = None\<rparr>)) 0 = Some \<lparr>cb_onStarted = False, cb_onData = False, cb_onError = True\<rparr>
   \<and> state (cancel 0 (subscription_run [SSubscribe (Num 1) \<lparr>cb_onStarted = False, cb_onData = False, cb_onError = True\<rparr> Undefined, TStarted 0] (subscriptionStoreCreatorFactory ''todos.streamTodos'' \<lparr>sopt_enabled = None\<rparr>))) =
       \<lparr>enabled = True, input = Num 1, data = Undefined, error = Undefined,
        status = ''pending''\<rparr>
   \<and> state (cancel 0 (subscription_run [SSubscribe (Num 1) \<lparr>cb_onStarted = False, cb_onData = False, cb_onError = True\<rparr> Undefined] (subscriptionStoreCreatorFactory ''todos.streamTodos'' \<lparr>sopt_enabled = None\<rparr>))) =
       \<lparr>enabled = True, input = Num 1, data = Undefined, error = Undefined,
        status = ''connecting''\<rparr>
   \<and> trace (cancel 0 (subscription_run [SSubscribe (Num 1) \<lparr>cb_onStarted = False, cb_onData = False, cb_onError = True\<rparr> Undefined, TStarted 0] (subscriptionStoreCreatorFactory ''todos.streamTodos'' \<lparr>sopt_enabled = None\<rparr>))) = trace (subscription_run [SSubscribe (Num 1) \<lparr>cb_onStarted = False, cb_onData = False, cb_onError = True\<rparr> Undefined, TStarted 0] (subscriptionStoreCreatorFactory ''todos.streamTodos'' \<lparr>sopt_enabled = None\<rparr>)) @ [Unsubscribe 0]"
proof -
  have h: "handlers (subscription_run [SSubscribe (Num 1) \<lparr>cb_onStarted = False, cb_onData = False, cb_onError = True\<rparr> Undefined, TStarted 0] (subscriptionStoreCreatorFactory ''todos.streamTodos'' \<lparr>sopt_enabled = None\<rparr>)) 0 = Some \<lparr>cb_onStarted = False, cb_onData = False, cb_onError = True\<rparr>"
    by (simp add: subscription_run_def subscriptionStoreCreatorFactory_def subscribe_def onData_def onStarted_def sub_defs)
  have h': "handlers (subscription_run [SSubscribe (Num 1) \<lparr>cb_onStarted = False, cb_onData = False, cb_onError = True\<rparr> Undefined] (subscriptionStoreCreatorFactory ''todos.streamTodos'' \<lparr>sopt_enabled = None\<rparr>)) 0 = Some \<lparr>cb_onStarted = False, cb_onData = False, cb_onError = True\<rparr>"
    by (simp add: subscription_run_def subscriptionStoreCreatorFactory_def subscribe_def onData_def onStarted_def sub_defs)
  have s: "state (subscription_run [SSubscribe (Num 1) \<lparr>cb_onStarted = False, cb_onData = False, cb_onError = True\<rparr> Undefined, TStarted 0] (subscriptionStoreCreatorFactory ''todos.streamTodos'' \<lparr>sopt_enabled = None\<rparr>)) = \<lparr>enabled = True, input = Num 1, data = Undefined, error = Undefined,
        status = ''pending''\<rparr>"
    by (simp add: subscription_run_def subscriptionStoreCreatorFactory_def subscribe_def onData_def onStarted_def sub_defs)
  have s': "state (subscription_run [SSubscribe (Num 1) \<lparr>cb_onStarted = False, cb_onData = False, cb_onError = True\<rparr> Undefined] (subscriptionStoreCreatorFactory ''todos.streamTodos'' \<lparr>sopt_enabled = None\<rparr>)) = \<lparr>enabled = True, input = Num 1, data = Undefined, error = Undefined,
        status = ''connecting''\<rparr>"
    by (simp add: subscription_run_def subscriptionStoreCreatorFactory_def subscribe_def onData_def onStarted_def sub_defs)
  show ?thesis
    using h cancel_only_unsubscribes [OF h] cancel_only_unsubscribes [OF h']
    by (simp add: s s')
qed


subsection \<open>The live-query registry\<close>

lemma matching_once:
  assumes "k \<in> set (normalize_keys ks)" and "r \<in> set (registrations g k)"
  shows "count_list (matching ks g) r = 1"
proof -
  have "r \<in> set (concat (map (registrations g) (normalize_keys ks)))"
    using assms by auto
  then show ?thesis
    by (simp add: matching_def count_list_distinct)
qed

lemma register_inserts:
  assumes "k \<in> set (normalize_keys rks)"
  shows "fst (fst (register rks g)) \<in> set (registrations (snd (register rks g)) k)"
  using assms by (simp add: register_def Let_def)

text \<open>
  C8. A registration found under at least one of the invalidated keys has its re-run
  callback invoked exactly once by \<^verbatim>\<open>invalidate(keys)\<close>, however many of the keys it
  is found under; so has a registration just made under keys that share a key with the
  invalidated ones.
\<close>

theorem invalidate_reruns_registration_once:
  assumes "k \<in> set (normalize_keys ks)" and "r \<in> set (registrations g k)"
  shows "count_list (matching ks g) r = 1
       \<and> reruns (invalidate ks g) = reruns g @ matching ks g
       \<and> count_list (reruns (invalidate ks g)) r = count_list (reruns g) r + 1
       \<and> (k \<in> set (normalize_keys rks) \<longrightarrow>
            count_list (matching ks (snd (register rks g')))
              (fst (fst (register rks g'))) = 1)"
proof -
  have m: "count_list (matching ks g) r = 1"
    using assms by (rule matching_once)
  have i: "reruns (invalidate ks g) = reruns g @ matching ks g"
    by (simp add: invalidate_def)
  have n: "k \<in> set (normalize_keys rks) \<longrightarrow>
            count_list (matching ks (snd (register rks g')))
              (fst (fst (register rks g'))) = 1"
    using matching_once [OF assms(1) register_inserts] by blast
  show ?thesis
    using m n by (simp add: i)
qed

theorem invalidate_reruns_registration_once_witness:
  "''b'' \<in> set (normalize_keys (Keys [''a'', ''b'']))
   \<and> 0 \<in> set (registrations (snd (register (Keys [''a'', ''b'']) empty_registry)) ''b'')
   \<and> reruns (invalidate (Keys [''a'', ''b''])
        (snd (register (Keys [''a'', ''b'']) empty_registry))) = [0]"
proof -
  let ?g = "snd (register (Keys [''a'', ''b'']) empty_registry)"
  have k: "''b'' \<in> set (normalize_keys (Keys [''a'', ''b'']))"
    by simp
  have r: "0 \<in> set (registrations ?g ''b'')"
    by (simp add: register_def empty_registry_def Let_def)
  have e: "reruns (invalidate (Keys [''a'', ''b'']) ?g) = [0]"
    by (simp add: invalidate_def matching_def register_def empty_registry_def Let_def)
  show ?thesis
    using k r e invalidate_reruns_registration_once [OF k r]
    by simp
qed

end
